theory Spec2Isabelle
  imports Complex_Main "HOL-Library.Log_Nat"
begin

section \<open>Values of the Python runtime that the clock engine computes with\<close>

text \<open>
  The engine is the two classes of \<^verbatim>\<open>src/clock_project/main.py\<close>:
  \<^verbatim>\<open>ClockNode\<close> (one clock) and \<^verbatim>\<open>CircularClockList\<close> (the ring).
  Every exception the code can raise is a value of \<open>error\<close>; a function that can
  raise returns \<open>error + 'a\<close>, with \<open>Inl\<close> for the exception.
\<close>

datatype error = UnknownTimeZoneError | OverflowError | ValueError | AttributeError

subsection \<open>Binary64 floating point\<close>

text \<open>
  A Python \<^verbatim>\<open>float\<close> is an IEEE 754 binary64 number. It is modelled by the rational
  number it denotes; every float operation computes the exact result and rounds it to
  the nearest number with a 53-bit significand, ties to even (\<open>float_round\<close>). The
  numbers of this program stay far inside the normal range, so neither overflow nor
  subnormal numbers are modelled.
\<close>

type_synonym pyfloat = rat

definition pow2 :: "int \<Rightarrow> rat" where
  "pow2 e = 2 powi e"

definition floor_log2 :: "rat \<Rightarrow> int" where
  \<comment> \<open>for \<open>0 < x\<close>: the exponent \<open>e\<close> with \<open>2 ^ e \<le> x < 2 ^ (e + 1)\<close>\<close>
  "floor_log2 x =
     (let p = fst (quotient_of x); q = snd (quotient_of x); d = bitlen p - bitlen q
      in if pow2 d \<le> x then d else d - 1)"

definition round_half_even :: "rat \<Rightarrow> int" where
  "round_half_even x =
     (let f = \<lfloor>x\<rfloor>; r = x - of_int f
      in if r < 1 / 2 then f else if 1 / 2 < r then f + 1 else if even f then f else f + 1)"

definition float_round :: "rat \<Rightarrow> pyfloat" where
  "float_round x =
     (if x = 0 then 0
      else let u = pow2 (floor_log2 \<bar>x\<bar> - 52)
           in of_int (round_half_even (x / u)) * u)"

definition float_of_int :: "int \<Rightarrow> pyfloat" where
  "float_of_int i = float_round (of_int i)"

definition int_truediv :: "int \<Rightarrow> int \<Rightarrow> pyfloat" where
  \<comment> \<open>\<^verbatim>\<open>a / b\<close> on two ints, correctly rounded; the divisors here are non-zero literals\<close>
  "int_truediv a b = float_round (of_int a / of_int b)"

definition float_add :: "pyfloat \<Rightarrow> pyfloat \<Rightarrow> pyfloat" where
  "float_add x y = float_round (x + y)"

definition float_sub :: "pyfloat \<Rightarrow> pyfloat \<Rightarrow> pyfloat" where
  "float_sub x y = float_round (x - y)"

definition float_mul :: "pyfloat \<Rightarrow> pyfloat \<Rightarrow> pyfloat" where
  "float_mul x y = float_round (x * y)"

definition float_floordiv :: "pyfloat \<Rightarrow> pyfloat \<Rightarrow> pyfloat" where
  \<comment> \<open>\<^verbatim>\<open>x // y\<close>; the engine only divides whole numbers of seconds by 3600 and 60\<close>
  "float_floordiv x y = float_round (of_int \<lfloor>x / y\<rfloor>)"

definition float_mod :: "pyfloat \<Rightarrow> pyfloat \<Rightarrow> pyfloat" where
  \<comment> \<open>\<^verbatim>\<open>x % y\<close>: the remainder takes the sign of the divisor\<close>
  "float_mod x y = float_round (x - y * of_int \<lfloor>x / y\<rfloor>)"

definition py_int :: "pyfloat \<Rightarrow> int" where
  \<comment> \<open>\<^verbatim>\<open>int(x)\<close> truncates towards zero\<close>
  "py_int x = (if 0 \<le> x then \<lfloor>x\<rfloor> else - \<lfloor>- x\<rfloor>)"

definition py_round2 :: "pyfloat \<Rightarrow> pyfloat" where
  \<comment> \<open>\<^verbatim>\<open>round(x, 2)\<close>: the nearest decimal with two places, then the nearest float\<close>
  "py_round2 x = float_round (of_int (round_half_even (x * 100)) / 100)"

subsection \<open>Formatting integers\<close>

definition digit_char :: "nat \<Rightarrow> char" where
  "digit_char d = char_of (48 + d)"

fun str_nat :: "nat \<Rightarrow> string" where
  "str_nat n = (if n < 10 then [digit_char n] else str_nat (n div 10) @ [digit_char (n mod 10)])"

declare str_nat.simps [simp del]

definition str_int :: "int \<Rightarrow> string" where
  \<comment> \<open>\<^verbatim>\<open>str(i)\<close>, which an f-string applies to an int\<close>
  "str_int i = (if i < 0 then CHR ''-'' # str_nat (nat (- i)) else str_nat (nat i))"

definition pad2 :: "int \<Rightarrow> string" where
  \<comment> \<open>a field of \<^verbatim>\<open>strftime\<close> printed with two digits\<close>
  "pad2 i = (if i < 10 then CHR ''0'' # str_int i else str_int i)"

subsection \<open>\<^verbatim>\<open>datetime\<close> and \<^verbatim>\<open>timedelta\<close>\<close>

text \<open>
  A \<^verbatim>\<open>datetime\<close> is its wall-clock fields; the calendar date is kept as the proleptic
  Gregorian ordinal of the day (\<^verbatim>\<open>toordinal()\<close>), which Python allows from 1 (1 January
  of year 1) to 3652059 (31 December 9999).
\<close>

record datetime =
  ordinal :: int
  hour :: int
  minute :: int
  second :: int
  microsecond :: int

text \<open>
  A \<^verbatim>\<open>timedelta\<close> built from integer hours and minutes has no microseconds. It is
  represented by its whole number of seconds \<open>s\<close>; Python's normalised fields are
  \<open>days = s div 86400\<close> and \<open>seconds = s mod 86400\<close>, and the constructor raises
  \<^verbatim>\<open>OverflowError\<close> when the magnitude of \<open>days\<close> exceeds 999999999.
\<close>

type_synonym timedelta = int

definition timedelta_hm :: "int \<Rightarrow> int \<Rightarrow> error + timedelta" where
  \<comment> \<open>\<^verbatim>\<open>timedelta(hours=hours, minutes=minutes)\<close>\<close>
  "timedelta_hm hours minutes =
     (let s = hours * 3600 + minutes * 60
      in if 999999999 < \<bar>s div 86400\<bar> then Inl OverflowError else Inr s)"

definition total_seconds :: "timedelta \<Rightarrow> pyfloat" where
  \<comment> \<open>\<^verbatim>\<open>((days * 86400 + seconds) * 10**6 + microseconds) / 10**6\<close>\<close>
  "total_seconds td = int_truediv (td * 1000000) 1000000"

definition datetime_add :: "datetime \<Rightarrow> timedelta \<Rightarrow> error + datetime" where
  \<comment> \<open>\<^verbatim>\<open>dt + td\<close>: wall-clock arithmetic; the result must be a date of years 1 to 9999\<close>
  "datetime_add dt td =
     (let total = hour dt * 3600 + minute dt * 60 + second dt + td;
          days = ordinal dt + total div 86400;
          rem = total mod 86400
      in if 0 < days \<and> days \<le> 3652059
         then Inr (dt\<lparr>ordinal := days, hour := rem div 3600,
                       minute := (rem mod 3600) div 60, second := rem mod 60\<rparr>)
         else Inl OverflowError)"


definition strftime_IMp :: "datetime \<Rightarrow> string" where
  \<comment> \<open>\<^verbatim>\<open>dt.strftime('%I:%M %p')\<close>: 12-hour clock, two digits each, AM or PM\<close>
  "strftime_IMp dt =
     pad2 (if hour dt mod 12 = 0 then 12 else hour dt mod 12) @ '':'' @ pad2 (minute dt) @ '' ''
       @ (if hour dt < 12 then ''AM'' else ''PM'')"

text \<open>
  The system clock is outside the program. A \<open>clock\<close> gives, for the \<open>t\<close>-th reading
  and a timezone name, what \<^verbatim>\<open>datetime.now(timezone)\<close> returns: readings are numbered
  because two readings of one operation may see different instants. The timezone
  database of \<^verbatim>\<open>pytz\<close> is a parameter \<open>tzdb\<close>, true on the names it knows.
\<close>

type_synonym clock = "nat \<Rightarrow> string \<Rightarrow> datetime"

section \<open>\<^verbatim>\<open>ClockNode\<close>\<close>

text \<open>
  Nodes live in a store, a list indexed by address; the links of a node are addresses
  or \<^verbatim>\<open>None\<close>. The \<^verbatim>\<open>timezone\<close> attribute is determined by \<open>timezone_str\<close> and has no
  field of its own.
\<close>

type_synonym addr = nat

record ClockNode =
  city_name :: string
  timezone_str :: string
  image_filename :: string
  next_clock :: "addr option"
  previous_clock :: "addr option"
  time_offset :: timedelta
  is_modified :: bool

definition ClockNode_init :: "(string \<Rightarrow> bool) \<Rightarrow> string \<Rightarrow> string \<Rightarrow> string \<Rightarrow> error + ClockNode" where
  "ClockNode_init tzdb city tz img =
     (if tzdb tz
      then Inr \<lparr>city_name = city, timezone_str = tz, image_filename = img,
                next_clock = None, previous_clock = None, time_offset = 0,
                is_modified = False\<rparr>
      else Inl UnknownTimeZoneError)"

definition fresh_node :: "string \<Rightarrow> string \<Rightarrow> string \<Rightarrow> ClockNode" where
  \<comment> \<open>the node that the constructor returns for a timezone it knows\<close>
  "fresh_node city tz img =
     \<lparr>city_name = city, timezone_str = tz, image_filename = img,
      next_clock = None, previous_clock = None, time_offset = 0, is_modified = False\<rparr>"

definition get_current_time :: "clock \<Rightarrow> nat \<Rightarrow> ClockNode \<Rightarrow> error + datetime" where
  "get_current_time clk t self = datetime_add (clk t (timezone_str self)) (time_offset self)"

text \<open>
  A method that assigns to attributes returns the node as it is afterwards, next to
  its outcome. When \<^verbatim>\<open>timedelta\<close> raises, no assignment has happened yet.
\<close>

definition set_time_offset :: "int \<Rightarrow> int \<Rightarrow> ClockNode \<Rightarrow> (error + unit) \<times> ClockNode" where
  "set_time_offset hours minutes self =
     (case timedelta_hm hours minutes of
        Inl e \<Rightarrow> (Inl e, self)
      | Inr td \<Rightarrow>
          (Inr (), self\<lparr>time_offset := td, is_modified := (hours \<noteq> 0 \<or> minutes \<noteq> 0)\<rparr>))"

definition reset_time_offset :: "ClockNode \<Rightarrow> (error + unit) \<times> ClockNode" where
  "reset_time_offset self = (Inr (), self\<lparr>time_offset := 0, is_modified := False\<rparr>)"

definition is_daytime :: "clock \<Rightarrow> nat \<Rightarrow> ClockNode \<Rightarrow> error + bool" where
  "is_daytime clk t self =
     (case get_current_time clk t self of
        Inl e \<Rightarrow> Inl e
      | Inr current_time \<Rightarrow> Inr (6 \<le> hour current_time \<and> hour current_time < 18))"

definition calculate_hour_angle :: "datetime \<Rightarrow> pyfloat" where
  "calculate_hour_angle time =
     float_add (float_of_int ((hour time mod 12) * 30))
               (float_mul (float_of_int (minute time)) (1 / 2))"

definition calculate_minute_angle :: "datetime \<Rightarrow> int" where
  "calculate_minute_angle time = minute time * 6"

definition calculate_second_angle :: "datetime \<Rightarrow> int" where
  "calculate_second_angle time = second time * 6"

definition offset_hours :: "ClockNode \<Rightarrow> int" where
  \<comment> \<open>\<^verbatim>\<open>int(self.time_offset.total_seconds() // 3600)\<close>\<close>
  "offset_hours self = py_int (float_floordiv (total_seconds (time_offset self)) (float_of_int 3600))"

definition offset_minutes :: "ClockNode \<Rightarrow> int" where
  \<comment> \<open>\<^verbatim>\<open>int((self.time_offset.total_seconds() % 3600) // 60)\<close>\<close>
  "offset_minutes self =
     py_int (float_floordiv (float_mod (total_seconds (time_offset self)) (float_of_int 3600))
                            (float_of_int 60))"

text \<open>
  The dictionary of \<^verbatim>\<open>get_clock_data\<close>. Its keys \<^verbatim>\<open>date\<close> and \<^verbatim>\<open>day_of_week\<close> are
  calendar strings (month and weekday names) that nothing below depends on; they are
  left out. The method reads the clock twice: once itself, once in \<^verbatim>\<open>is_daytime\<close>.
\<close>

record clock_data =
  cd_city :: string
  cd_timezone :: string
  cd_hour :: int
  cd_minute :: int
  cd_second :: int
  cd_is_day :: bool
  cd_image :: string
  cd_hour_angle :: pyfloat
  cd_minute_angle :: int
  cd_second_angle :: int
  cd_formatted_time :: string
  cd_is_modified :: bool
  cd_offset_hours :: int
  cd_offset_minutes :: int

definition get_clock_data :: "clock \<Rightarrow> nat \<Rightarrow> ClockNode \<Rightarrow> error + clock_data" where
  "get_clock_data clk t self =
     (case get_current_time clk t self of
        Inl e \<Rightarrow> Inl e
      | Inr current_time \<Rightarrow>
          (case is_daytime clk (t + 1) self of
             Inl e \<Rightarrow> Inl e
           | Inr is_day \<Rightarrow>
               Inr \<lparr>cd_city = city_name self, cd_timezone = timezone_str self,
                    cd_hour = hour current_time, cd_minute = minute current_time,
                    cd_second = second current_time, cd_is_day = is_day,
                    cd_image = image_filename self,
                    cd_hour_angle = calculate_hour_angle current_time,
                    cd_minute_angle = calculate_minute_angle current_time,
                    cd_second_angle = calculate_second_angle current_time,
                    cd_formatted_time = strftime_IMp current_time,
                    cd_is_modified = is_modified self,
                    cd_offset_hours = offset_hours self,
                    cd_offset_minutes = offset_minutes self\<rparr>))"

section \<open>\<^verbatim>\<open>CircularClockList\<close>\<close>

text \<open>
  The ring is the store of its nodes together with \<open>head_clock\<close> and
  \<open>clock_count\<close>. A new node gets the next free address of the store.
  Reading an attribute through \<^verbatim>\<open>None\<close> raises \<^verbatim>\<open>AttributeError\<close>; an address
  outside the store has no counterpart in Python and is treated the same way.
\<close>

record CircularClockList =
  nodes :: "ClockNode list"
  head_clock :: "addr option"
  clock_count :: nat

definition CircularClockList_init :: CircularClockList where
  "CircularClockList_init = \<lparr>nodes = [], head_clock = None, clock_count = 0\<rparr>"

definition deref :: "ClockNode list \<Rightarrow> addr option \<Rightarrow> error + ClockNode" where
  "deref ns p =
     (case p of
        None \<Rightarrow> Inl AttributeError
      | Some a \<Rightarrow> if a < length ns then Inr (ns ! a) else Inl AttributeError)"

definition set_next :: "addr \<Rightarrow> addr option \<Rightarrow> ClockNode list \<Rightarrow> ClockNode list" where
  "set_next a v ns = ns[a := (ns ! a)\<lparr>next_clock := v\<rparr>]"

definition set_previous :: "addr \<Rightarrow> addr option \<Rightarrow> ClockNode list \<Rightarrow> ClockNode list" where
  "set_previous a v ns = ns[a := (ns ! a)\<lparr>previous_clock := v\<rparr>]"

definition assign_next :: "addr option \<Rightarrow> addr option \<Rightarrow> ClockNode list \<Rightarrow> error + ClockNode list" where
  \<comment> \<open>\<^verbatim>\<open>p.next_clock = v\<close> for a reference \<open>p\<close> that may be \<^verbatim>\<open>None\<close>\<close>
  "assign_next p v ns =
     (case p of
        None \<Rightarrow> Inl AttributeError
      | Some a \<Rightarrow> if a < length ns then Inr (set_next a v ns) else Inl AttributeError)"

text \<open>
  \<^verbatim>\<open>add_clock\<close> first builds the node, which raises for an unknown timezone. In the
  non-empty case the only statement that can raise is the first assignment, through
  the old tail; the three that follow assign to the new node and to the head, which
  has just been read. An exception therefore returns the ring as it was.
\<close>

definition add_clock ::
  "(string \<Rightarrow> bool) \<Rightarrow> string \<Rightarrow> string \<Rightarrow> string \<Rightarrow> CircularClockList
     \<Rightarrow> (error + unit) \<times> CircularClockList" where
  "add_clock tzdb city tz img self =
     (case ClockNode_init tzdb city tz img of
        Inl e \<Rightarrow> (Inl e, self)
      | Inr new_node \<Rightarrow>
          let new_clock = length (nodes self);
              store = nodes self @ [new_node]
          in (case head_clock self of
                None \<Rightarrow>
                  let s1 = set_next new_clock (Some new_clock) store;
                      s2 = set_previous new_clock (Some new_clock) s1
                  in (Inr (), self\<lparr>nodes := s2, head_clock := Some new_clock,
                                    clock_count := clock_count self + 1\<rparr>)
              | Some head \<Rightarrow>
                  (case deref store (Some head) of
                     Inl e \<Rightarrow> (Inl e, self)
                   | Inr head_node \<Rightarrow>
                       let tail_clock = previous_clock head_node
                       in (case assign_next tail_clock (Some new_clock) store of
                             Inl e \<Rightarrow> (Inl e, self)
                           | Inr s1 \<Rightarrow>
                               let s2 = set_previous new_clock tail_clock s1;
                                   s3 = set_next new_clock (Some head) s2;
                                   s4 = set_previous head (Some new_clock) s3
                               in (Inr (), self\<lparr>nodes := s4,
                                                 clock_count := clock_count self + 1\<rparr>)))))"

definition next_of :: "ClockNode list \<Rightarrow> addr option \<Rightarrow> error + addr option" where
  \<comment> \<open>\<^verbatim>\<open>p.next_clock\<close>\<close>
  "next_of ns p = (case deref ns p of Inl e \<Rightarrow> Inl e | Inr nd \<Rightarrow> Inr (next_clock nd))"

definition previous_of :: "ClockNode list \<Rightarrow> addr option \<Rightarrow> error + addr option" where
  \<comment> \<open>\<^verbatim>\<open>p.previous_clock\<close>\<close>
  "previous_of ns p = (case deref ns p of Inl e \<Rightarrow> Inl e | Inr nd \<Rightarrow> Inr (previous_clock nd))"

fun follow_next :: "ClockNode list \<Rightarrow> nat \<Rightarrow> addr option \<Rightarrow> error + addr option" where
  "follow_next ns 0 current_clock = Inr current_clock"
| "follow_next ns (Suc k) current_clock =
     (case next_of ns current_clock of
        Inl e \<Rightarrow> Inl e
      | Inr nxt \<Rightarrow> follow_next ns k nxt)"

fun follow_previous :: "ClockNode list \<Rightarrow> nat \<Rightarrow> addr option \<Rightarrow> error + addr option" where
  "follow_previous ns 0 current_clock = Inr current_clock"
| "follow_previous ns (Suc k) current_clock =
     (case previous_of ns current_clock of
        Inl e \<Rightarrow> Inl e
      | Inr prv \<Rightarrow> follow_previous ns k prv)"

definition get_clock_at_index :: "int \<Rightarrow> CircularClockList \<Rightarrow> error + addr option" where
  "get_clock_at_index index self =
     (if head_clock self = None \<or> index < 0 \<or> int (clock_count self) \<le> index
      then Inr None
      else follow_next (nodes self) (nat index) (head_clock self))"



definition format_time_difference :: "pyfloat \<Rightarrow> string" where
  "format_time_difference hours =
     (let abs_hours = \<bar>hours\<bar>;
          whole_hours = py_int abs_hours;
          minutes = py_int (float_mul (float_sub abs_hours (float_of_int whole_hours))
                                      (float_of_int 60));
          direction = (if 0 < hours then ''ahead'' else ''behind'')
      in if minutes = 0 then str_int whole_hours @ '' hours '' @ direction
         else str_int whole_hours @ ''h '' @ str_int minutes @ ''m '' @ direction)"

record time_difference =
  clock1 :: string
  clock2 :: string
  difference_hours :: pyfloat
  difference_text :: string

definition time_diff :: "datetime \<Rightarrow> datetime \<Rightarrow> pyfloat" where
  \<comment> \<open>\<^verbatim>\<open>(time2.hour - time1.hour) + (time2.minute - time1.minute) / 60\<close>\<close>
  "time_diff time1 time2 =
     float_add (float_of_int (hour time2 - hour time1))
               (int_truediv (minute time2 - minute time1) 60)"

definition calculate_time_difference ::
  "clock \<Rightarrow> int \<Rightarrow> int \<Rightarrow> CircularClockList \<Rightarrow> error + time_difference option" where
  "calculate_time_difference clk index1 index2 self =
     (case get_clock_at_index index1 self of
        Inl e \<Rightarrow> Inl e
      | Inr c1 \<Rightarrow>
     (case get_clock_at_index index2 self of
        Inl e \<Rightarrow> Inl e
      | Inr c2 \<Rightarrow>
     if c1 = None \<or> c2 = None then Inr None
     else
     (case deref (nodes self) c1 of
        Inl e \<Rightarrow> Inl e
      | Inr node1 \<Rightarrow>
     (case deref (nodes self) c2 of
        Inl e \<Rightarrow> Inl e
      | Inr node2 \<Rightarrow>
     (case get_current_time clk 0 node1 of
        Inl e \<Rightarrow> Inl e
      | Inr time1 \<Rightarrow>
     (case get_current_time clk 1 node2 of
        Inl e \<Rightarrow> Inl e
      | Inr time2 \<Rightarrow>
          let diff = time_diff time1 time2
          in Inr (Some \<lparr>clock1 = city_name node1, clock2 = city_name node2,
                         difference_hours = py_round2 diff,
                         difference_text = format_time_difference diff\<rparr>)))))))"

record city_time =
  ct_city :: string
  ct_time :: string
  ct_hour :: int

record optimal_time =
  reference_hour :: int
  times :: "city_time list"
  quality :: string




section \<open>States the program can reach, and the notions the properties speak of\<close>

text \<open>
  The ring is built by \<^verbatim>\<open>add_clock\<close> and afterwards changed only through
  \<^verbatim>\<open>set_time_offset\<close> and \<^verbatim>\<open>reset_time_offset\<close> on a node found by
  \<^verbatim>\<open>get_clock_at_index\<close>, as the request handlers do. After a call that raises, the
  state is the one the call returns.
\<close>

inductive reachable :: "(string \<Rightarrow> bool) \<Rightarrow> CircularClockList \<Rightarrow> bool" for tzdb where
  init: "reachable tzdb CircularClockList_init"
| add: "reachable tzdb l \<Longrightarrow> reachable tzdb (snd (add_clock tzdb city tz img l))"
| set_offset:
    "reachable tzdb l \<Longrightarrow> get_clock_at_index index l = Inr (Some a) \<Longrightarrow>
     reachable tzdb (l\<lparr>nodes := (nodes l)[a := snd (set_time_offset hours minutes (nodes l ! a))]\<rparr>)"
| reset_offset:
    "reachable tzdb l \<Longrightarrow> get_clock_at_index index l = Inr (Some a) \<Longrightarrow>
     reachable tzdb (l\<lparr>nodes := (nodes l)[a := snd (reset_time_offset (nodes l ! a))]\<rparr>)"

text \<open>The records linked into the ring: those found from the head by following \<^verbatim>\<open>next_clock\<close>.\<close>

inductive_set linked :: "CircularClockList \<Rightarrow> addr set" for l where
  head: "head_clock l = Some a \<Longrightarrow> a \<in> linked l"
| step: "a \<in> linked l \<Longrightarrow> next_of (nodes l) (Some a) = Inr (Some b) \<Longrightarrow> b \<in> linked l"

text \<open>
  The layout every reachable ring has: the node at address \<open>i\<close> is the \<open>i\<close>-th one
  added, the head is the first, and the links go round in address order.
\<close>

definition ring_ok :: "CircularClockList \<Rightarrow> bool" where
  "ring_ok l =
     (clock_count l = length (nodes l) \<and>
      head_clock l = (if nodes l = [] then None else Some 0) \<and>
      (\<forall>i < length (nodes l).
          next_clock (nodes l ! i) = Some (if Suc i = length (nodes l) then 0 else Suc i) \<and>
          previous_clock (nodes l ! i) = Some (if i = 0 then length (nodes l) - 1 else i - 1)))"

text \<open>Calls of the two offset methods on one node, one request after the other.\<close>

datatype offset_call = SetOffset int int | ResetOffset

fun call_offset :: "offset_call \<Rightarrow> ClockNode \<Rightarrow> (error + unit) \<times> ClockNode" where
  "call_offset (SetOffset hours minutes) nd = set_time_offset hours minutes nd"
| "call_offset ResetOffset nd = reset_time_offset nd"

fun call_offsets :: "offset_call list \<Rightarrow> ClockNode \<Rightarrow> ClockNode" where
  "call_offsets [] nd = nd"
| "call_offsets (c # cs) nd = call_offsets cs (snd (call_offset c nd))"

text \<open>
  Every reading of every clock gives a time that the node's offset keeps within the
  years 1 to 9999, so that \<^verbatim>\<open>get_current_time\<close> returns.
\<close>

definition readable :: "clock \<Rightarrow> CircularClockList \<Rightarrow> bool" where
  "readable clk l = (\<forall>t. \<forall>nd \<in> set (nodes l). \<exists>dt. get_current_time clk t nd = Inr dt)"







text \<open>
  The module builds its ring \<^verbatim>\<open>clock_list\<close> with three calls of \<^verbatim>\<open>add_clock\<close>;
  \<open>known_zones\<close> is a timezone database that knows just the three names used there.
  \<open>city_of\<close> reads \<^verbatim>\<open>city_name\<close> through a reference that an earlier step returned.
\<close>

definition clock_list :: "(string \<Rightarrow> bool) \<Rightarrow> CircularClockList" where
  "clock_list tzdb =
     snd (add_clock tzdb ''China'' ''Asia/Shanghai'' ''clock_china.png''
       (snd (add_clock tzdb ''United Kingdom'' ''Europe/London'' ''clock_uk.png''
         (snd (add_clock tzdb ''Colombia'' ''America/Bogota'' ''clock_colombia.png''
            CircularClockList_init)))))"

definition known_zones :: "string \<Rightarrow> bool" where
  "known_zones tz = (tz = ''America/Bogota'' \<or> tz = ''Europe/London'' \<or> tz = ''Asia/Shanghai'')"

definition city_of :: "ClockNode list \<Rightarrow> error + addr option \<Rightarrow> error + string" where
  "city_of ns r =
     (case r of
        Inl e \<Rightarrow> Inl e
      | Inr p \<Rightarrow> (case deref ns p of Inl e \<Rightarrow> Inl e | Inr nd \<Rightarrow> Inr (city_name nd)))"

definition next_city :: "CircularClockList \<Rightarrow> int \<Rightarrow> error + string" where
  \<comment> \<open>\<^verbatim>\<open>get_clock_at_index(index).next_clock.city_name\<close>\<close>
  "next_city l index =
     (case get_clock_at_index index l of
        Inl e \<Rightarrow> Inl e
      | Inr p \<Rightarrow> city_of (nodes l) (next_of (nodes l) p))"

definition previous_city :: "CircularClockList \<Rightarrow> int \<Rightarrow> error + string" where
  \<comment> \<open>\<^verbatim>\<open>get_clock_at_index(index).previous_clock.city_name\<close>\<close>
  "previous_city l index =
     (case get_clock_at_index index l of
        Inl e \<Rightarrow> Inl e
      | Inr p \<Rightarrow> city_of (nodes l) (previous_of (nodes l) p))"



text \<open>What \<^verbatim>\<open>strftime('%I:%M %p')\<close> prints for the full hour \<open>h\<close>.\<close>

definition hour_label :: "int \<Rightarrow> string" where
  "hour_label h =
     strftime_IMp \<lparr>ordinal = 1, hour = h, minute = 0, second = 0, microsecond = 0\<rparr>"


text \<open>
  The module's ring after \<^verbatim>\<open>set_time_offset(hours=0, minutes=40)\<close> on the clock at index
  0, and a reading of the system clock at which it is 09:00 in Bogota, 14:00 in London
  and 22:00 in Shanghai.
\<close>

definition offset_ring :: CircularClockList where
  "offset_ring =
     (clock_list known_zones)
       \<lparr>nodes := (nodes (clock_list known_zones))
          [0 := (nodes (clock_list known_zones) ! 0)\<lparr>time_offset := 2400, is_modified := True\<rparr>]\<rparr>"

definition morning_clock :: clock where
  "morning_clock t tz =
     (if tz = ''America/Bogota''
      then \<lparr>ordinal = 739000, hour = 9, minute = 0, second = 0, microsecond = 0\<rparr>
      else if tz = ''Europe/London''
      then \<lparr>ordinal = 739000, hour = 14, minute = 0, second = 0, microsecond = 0\<rparr>
      else \<lparr>ordinal = 739000, hour = 22, minute = 0, second = 0, microsecond = 0\<rparr>)"

text \<open>
  The difference as the specification words it, in exact arithmetic: the hours
  \<open>(time2.hour - time1.hour) + (time2.minute - time1.minute) / 60\<close>, and the split of
  their magnitude into whole hours and minutes rounded down.
\<close>

definition spec_diff_hours :: "datetime \<Rightarrow> datetime \<Rightarrow> rat" where
  "spec_diff_hours time1 time2 =
     of_int (hour time2 - hour time1) + of_int (minute time2 - minute time1) / 60"

definition spec_split :: "rat \<Rightarrow> int \<times> int" where
  "spec_split d = (\<lfloor>\<bar>d\<bar>\<rfloor>, \<lfloor>(\<bar>d\<bar> - of_int \<lfloor>\<bar>d\<bar>\<rfloor>) * 60\<rfloor>)"


section \<open>Rounding leaves small dyadic numbers unchanged\<close>

lemma pow2_pos: "0 < pow2 e"
  by (simp add: pow2_def)

lemma pow2_add: "pow2 (a + b) = pow2 a * pow2 b"
  by (simp add: pow2_def power_int_add)

lemma pow2_nonneg_exp: "0 \<le> e \<Longrightarrow> pow2 e = of_int (2 ^ nat e)"
  by (simp add: pow2_def power_int_def)

lemma pow2_less: "a < b \<Longrightarrow> pow2 a < pow2 b"
  by (simp add: pow2_def power_int_strict_increasing)

lemma pow2_less_D: "pow2 a < pow2 b \<Longrightarrow> a < b"
proof (rule ccontr)
  assume "pow2 a < pow2 b" and "\<not> a < b"
  then have "b \<le> a" by simp
  then have "pow2 b \<le> pow2 a"
    by (simp add: pow2_def power_int_increasing)
  with \<open>pow2 a < pow2 b\<close> show False by simp
qed

lemma floor_log2_bounds:
  assumes "0 < x"
  shows "pow2 (floor_log2 x) \<le> x \<and> x < pow2 (floor_log2 x + 1)"
proof -
  obtain p q where pq: "quotient_of x = (p, q)" by (cases "quotient_of x")
  then have q: "0 < q" and x: "x = of_int p / of_int q"
    by (auto dest: quotient_of_denom_pos quotient_of_div)
  from assms x q have p: "0 < p"
    by (simp add: zero_less_divide_iff)
  define bp where "bp = bitlen p"
  define bq where "bq = bitlen q"
  have bp1: "1 \<le> bp" and bq1: "1 \<le> bq"
    using p q by (simp_all add: bp_def bq_def bitlen_alt_def)
  from bitlen_bounds[OF p] have "2 ^ nat (bp - 1) \<le> p" "p < 2 ^ nat bp"
    by (simp_all add: bp_def)
  then have P: "pow2 (bp - 1) \<le> of_int p" "of_int p < pow2 bp"
    using bp1 by (simp_all add: pow2_nonneg_exp)
  from bitlen_bounds[OF q] have "2 ^ nat (bq - 1) \<le> q" "q < 2 ^ nat bq"
    by (simp_all add: bq_def)
  then have Q: "pow2 (bq - 1) \<le> of_int q" "of_int q < pow2 bq"
    using bq1 by (simp_all add: pow2_nonneg_exp)
  have qpos: "(0::rat) < of_int q" using q by simp
  have lower: "pow2 (bp - bq - 1) < x"
  proof -
    have "pow2 (bp - bq - 1) * of_int q < pow2 (bp - bq - 1) * pow2 bq"
      using Q(2) pow2_pos by (simp add: mult_strict_left_mono)
    also have "\<dots> = pow2 (bp - 1)"
      by (simp add: pow2_add [symmetric])
    also have "\<dots> \<le> of_int p" by (rule P(1))
    finally show ?thesis using qpos by (simp add: x pos_less_divide_eq)
  qed
  have upper: "x < pow2 (bp - bq + 1)"
  proof -
    have "of_int p < pow2 bp" by (rule P(2))
    also have "\<dots> = pow2 (bp - bq + 1) * pow2 (bq - 1)"
      by (simp add: pow2_add [symmetric])
    also have "\<dots> \<le> pow2 (bp - bq + 1) * of_int q"
      using Q(1) pow2_pos [of "bp - bq + 1"] by (simp add: mult_left_mono)
    finally show ?thesis using qpos by (simp add: x pos_divide_less_eq)
  qed
  show ?thesis
    using lower upper pq
    by (auto simp: floor_log2_def Let_def bp_def bq_def)
qed

lemma round_half_even_of_int: "round_half_even (of_int n) = n"
  by (simp add: round_half_even_def)

lemma float_round_dyadic:
  assumes "\<bar>k\<bar> < 2 ^ 53"
  shows "float_round (of_int k * pow2 j) = of_int k * pow2 j"
proof (cases "k = 0")
  case True
  then show ?thesis by (simp add: float_round_def)
next
  case False
  define x :: rat where "x = of_int k * pow2 j"
  define e where "e = floor_log2 \<bar>x\<bar>"
  have ax: "\<bar>x\<bar> = of_int \<bar>k\<bar> * pow2 j"
    using pow2_pos [of j] by (simp add: x_def abs_mult)
  have xpos: "0 < \<bar>x\<bar>"
    using False pow2_pos [of j] by (simp add: x_def)
  from floor_log2_bounds [OF xpos] have "pow2 e \<le> \<bar>x\<bar>" by (simp add: e_def)
  also have "\<bar>x\<bar> < of_int (2 ^ 53) * pow2 j"
    unfolding ax using assms pow2_pos [of j]
    by (intro mult_strict_right_mono) (simp_all only: of_int_less_iff)
  also have "\<dots> = pow2 (53 + j)"
    by (simp add: pow2_add pow2_nonneg_exp)
  finally have "e < 53 + j" by (rule pow2_less_D)
  then have d: "0 \<le> j - (e - 52)" by simp
  have "x / pow2 (e - 52) = of_int k * (pow2 j / pow2 (e - 52))" by (simp add: x_def)
  also have "pow2 j / pow2 (e - 52) = pow2 (j - (e - 52))"
    using pow2_add [of "j - (e - 52)" "e - 52"] pow2_pos [of "e - 52"] by simp
  also have "\<dots> = of_int (2 ^ nat (j - (e - 52)))"
    using d by (rule pow2_nonneg_exp)
  finally have q: "x / pow2 (e - 52) = of_int (k * 2 ^ nat (j - (e - 52)))" by simp
  have "float_round x = of_int (round_half_even (x / pow2 (e - 52))) * pow2 (e - 52)"
    using xpos by (simp add: float_round_def e_def Let_def)
  also have "\<dots> = x / pow2 (e - 52) * pow2 (e - 52)"
    unfolding q round_half_even_of_int ..
  also have "\<dots> = x" using pow2_pos [of "e - 52"] by simp
  finally show ?thesis by (simp add: x_def)
qed

lemma float_round_int: "\<bar>k\<bar> < 2 ^ 53 \<Longrightarrow> float_round (of_int k) = of_int k"
  using float_round_dyadic [of k 0] by (simp add: pow2_def)

lemma float_round_half: "\<bar>k\<bar> < 2 ^ 53 \<Longrightarrow> float_round (of_int k / 2) = of_int k / 2"
  using float_round_dyadic [of k "-1"] by (simp add: pow2_def)

section \<open>The layout of a reachable ring\<close>

lemma ring_ok_init: "ring_ok CircularClockList_init"
  by (simp add: ring_ok_def CircularClockList_init_def)

lemma add_clock_unknown: "\<not> tzdb tz \<Longrightarrow> add_clock tzdb city tz img l = (Inl UnknownTimeZoneError, l)"
  by (simp add: add_clock_def ClockNode_init_def)

lemma add_clock_empty:
  assumes "tzdb tz" "ring_ok l" "nodes l = []"
  shows "add_clock tzdb city tz img l =
    (Inr (), l\<lparr>nodes := [(fresh_node city tz img)\<lparr>next_clock := Some 0, previous_clock := Some 0\<rparr>],
       head_clock := Some 0, clock_count := 1\<rparr>)"
  using assms
  by (simp add: add_clock_def ClockNode_init_def ring_ok_def Let_def set_next_def set_previous_def fresh_node_def)

lemma add_clock_nonempty:
  assumes "tzdb tz" "ring_ok l" "nodes l \<noteq> []"
  shows "add_clock tzdb city tz img l =
    (Inr (), l\<lparr>nodes :=
        set_previous 0 (Some (length (nodes l)))
          (set_next (length (nodes l)) (Some 0)
            (set_previous (length (nodes l)) (Some (length (nodes l) - 1))
              (set_next (length (nodes l) - 1) (Some (length (nodes l)))
                 (nodes l @ [fresh_node city tz img])))),
       clock_count := clock_count l + 1\<rparr>)"
  using assms
  by (simp add: add_clock_def ClockNode_init_def ring_ok_def Let_def deref_def assign_next_def
      nth_append fresh_node_def)

lemma ring_ok_add: "ring_ok l \<Longrightarrow> ring_ok (snd (add_clock tzdb city tz img l))"
proof (cases "tzdb tz")
  case False
  assume "ring_ok l"
  with False show ?thesis by (simp add: add_clock_unknown)
next
  case True
  assume ok: "ring_ok l"
  show ?thesis
  proof (cases "nodes l = []")
    case True
    with \<open>tzdb tz\<close> ok show ?thesis
      by (simp add: add_clock_empty ring_ok_def)
  next
    case False
    then have pos: "0 < length (nodes l)" by simp
    from False \<open>tzdb tz\<close> ok
    have eq: "snd (add_clock tzdb city tz img l) = l\<lparr>nodes :=
        set_previous 0 (Some (length (nodes l)))
          (set_next (length (nodes l)) (Some 0)
            (set_previous (length (nodes l)) (Some (length (nodes l) - 1))
              (set_next (length (nodes l) - 1) (Some (length (nodes l)))
                 (nodes l @ [fresh_node city tz img])))),
       clock_count := clock_count l + 1\<rparr>"
      by (simp add: add_clock_nonempty)
    from pos have one: "length (nodes l) \<le> Suc 0 \<longrightarrow> length (nodes l) = Suc 0"
      by arith
    show ?thesis
      unfolding eq using ok one
      by (auto simp add: ring_ok_def set_next_def set_previous_def nth_list_update nth_append)
  qed
qed


lemma ring_ok_update:
  assumes "ring_ok l" "a < length (nodes l)"
    "next_clock nd = next_clock (nodes l ! a)" "previous_clock nd = previous_clock (nodes l ! a)"
  shows "ring_ok (l\<lparr>nodes := (nodes l)[a := nd]\<rparr>)"
  using assms by (auto simp add: ring_ok_def nth_list_update)

lemma set_time_offset_links:
  "next_clock (snd (set_time_offset h m nd)) = next_clock nd"
  "previous_clock (snd (set_time_offset h m nd)) = previous_clock nd"
  by (simp_all add: set_time_offset_def split: sum.splits)

lemma reset_time_offset_links:
  "next_clock (snd (reset_time_offset nd)) = next_clock nd"
  "previous_clock (snd (reset_time_offset nd)) = previous_clock nd"
  by (simp_all add: reset_time_offset_def)

lemma next_of_ok:
  "ring_ok l \<Longrightarrow> a < length (nodes l) \<Longrightarrow>
   next_of (nodes l) (Some a) = Inr (Some (if Suc a = length (nodes l) then 0 else Suc a))"
  by (simp add: next_of_def deref_def ring_ok_def)

lemma previous_of_ok:
  "ring_ok l \<Longrightarrow> a < length (nodes l) \<Longrightarrow>
   previous_of (nodes l) (Some a) = Inr (Some (if a = 0 then length (nodes l) - 1 else a - 1))"
  by (simp add: previous_of_def deref_def ring_ok_def)

lemma follow_next_ok:
  "ring_ok l \<Longrightarrow> a < length (nodes l) \<Longrightarrow>
   follow_next (nodes l) k (Some a) = Inr (Some ((a + k) mod length (nodes l)))"
proof (induction k arbitrary: a)
  case 0
  then show ?case by simp
next
  case (Suc k)
  let ?n = "length (nodes l)"
  let ?b = "if Suc a = ?n then 0 else Suc a"
  from Suc.prems have b: "?b < ?n" by auto
  have "(?b + k) mod ?n = (a + Suc k) mod ?n"
  proof (cases "Suc a = ?n")
    case True
    then have e: "a + Suc k = ?n + k" by arith
    have "(a + Suc k) mod ?n = k mod ?n"
      unfolding e by (rule mod_add_self1)
    moreover from True have "?b + k = k" by simp
    ultimately show ?thesis by (simp only:)
  next
    case False
    then show ?thesis by simp
  qed
  with Suc.IH [OF Suc.prems(1) b] Suc.prems show ?case
    by (simp add: next_of_ok)
qed

lemma follow_previous_ok:
  "ring_ok l \<Longrightarrow> a < length (nodes l) \<Longrightarrow>
   follow_previous (nodes l) k (Some a) =
     Inr (Some ((a + k * (length (nodes l) - 1)) mod length (nodes l)))"
proof (induction k arbitrary: a)
  case 0
  then show ?case by simp
next
  case (Suc k)
  let ?n = "length (nodes l)"
  let ?b = "if a = 0 then ?n - 1 else a - 1"
  from Suc.prems have b: "?b < ?n" by auto
  have "(?b + k * (?n - 1)) mod ?n = (a + Suc k * (?n - 1)) mod ?n"
  proof (cases "a = 0")
    case True
    then show ?thesis by (simp add: add.commute)
  next
    case False
    with Suc.prems have e: "a + Suc k * (?n - 1) = (a - 1 + k * (?n - 1)) + ?n"
      by simp
    have "(a + Suc k * (?n - 1)) mod ?n = (a - 1 + k * (?n - 1)) mod ?n"
      unfolding e by (rule mod_add_self2)
    moreover from False have "?b = a - 1" by simp
    ultimately show ?thesis by (simp only:)
  qed
  with Suc.IH [OF Suc.prems(1) b] Suc.prems show ?case
    by (simp add: previous_of_ok)
qed

lemma follow_next_round:
  "ring_ok l \<Longrightarrow> a < length (nodes l) \<Longrightarrow>
   follow_next (nodes l) (length (nodes l)) (Some a) = Inr (Some a)"
  by (simp add: follow_next_ok)

lemma follow_previous_round:
  assumes "ring_ok l" "a < length (nodes l)"
  shows "follow_previous (nodes l) (length (nodes l)) (Some a) = Inr (Some a)"
proof -
  let ?n = "length (nodes l)"
  have "(a + ?n * (?n - 1)) mod ?n = a" using assms(2) by simp
  with assms show ?thesis by (simp add: follow_previous_ok)
qed

lemma linked_ok:
  assumes "ring_ok l"
  shows "linked l = {0..<length (nodes l)}"
proof (intro equalityI subsetI)
  fix a assume "a \<in> linked l"
  then have "a < length (nodes l)"
  proof (induction rule: linked.induct)
    case (head a)
    with assms show ?case by (auto simp: ring_ok_def split: if_splits)
  next
    case (step a b)
    with assms show ?case by (auto simp: next_of_ok split: if_splits)
  qed
  then show "a \<in> {0..<length (nodes l)}" by simp
next
  fix a assume "a \<in> {0..<length (nodes l)}"
  then have "a < length (nodes l)" by simp
  then show "a \<in> linked l"
  proof (induction a)
    case 0
    with assms have "head_clock l = Some 0" by (auto simp: ring_ok_def)
    then show ?case by (rule linked.head)
  next
    case (Suc a)
    then have "a \<in> linked l" by simp
    moreover have "next_of (nodes l) (Some a) = Inr (Some (Suc a))"
      using assms Suc.prems by (simp add: next_of_ok)
    ultimately show ?case by (rule linked.step)
  qed
qed

lemma get_clock_at_index_ok:
  assumes "ring_ok l"
  shows "get_clock_at_index index l =
     Inr (if index < 0 \<or> int (length (nodes l)) \<le> index then None else Some (nat index))"
proof (cases "index < 0 \<or> int (length (nodes l)) \<le> index")
  case True
  with assms show ?thesis by (auto simp: get_clock_at_index_def ring_ok_def)
next
  case False
  then have n: "nat index < length (nodes l)" by auto
  have ne: "nodes l \<noteq> []"
  proof
    assume "nodes l = []"
    with n show False by simp
  qed
  with assms have h: "head_clock l = Some 0" and c: "clock_count l = length (nodes l)"
    by (auto simp: ring_ok_def)
  from ne have "0 < length (nodes l)" by simp
  from follow_next_ok [OF assms this, of "nat index"] n False h c
  show ?thesis by (simp add: get_clock_at_index_def)
qed

lemma reachable_ring_ok: "reachable tzdb l \<Longrightarrow> ring_ok l"
proof (induction rule: reachable.induct)
  case init
  show ?case by (rule ring_ok_init)
next
  case (add l city tz img)
  then show ?case by (simp add: ring_ok_add)
next
  case (set_offset l index a hours minutes)
  from set_offset.IH set_offset.hyps(2) have "a < length (nodes l)"
    by (auto simp: get_clock_at_index_ok split: if_splits)
  with set_offset.IH show ?case
    by (intro ring_ok_update) (simp_all add: set_time_offset_links)
next
  case (reset_offset l index a)
  from reset_offset.IH reset_offset.hyps(2) have "a < length (nodes l)"
    by (auto simp: get_clock_at_index_ok split: if_splits)
  with reset_offset.IH show ?case
    by (intro ring_ok_update) (simp_all add: reset_time_offset_links)
qed

section \<open>The hands of the clock\<close>

lemma hour_angle_exact:
  assumes "0 \<le> hour t" "hour t < 24" "0 \<le> minute t" "minute t < 60"
  shows "calculate_hour_angle t = of_int (hour t mod 12) * 30 + of_int (minute t) * (1 / 2)"
proof -
  let ?h = "hour t mod 12"
  let ?m = "minute t"
  have h: "0 \<le> ?h" "?h < 12" by simp_all
  have a: "float_of_int (?h * 30) = of_int (?h * 30)"
    unfolding float_of_int_def using h by (intro float_round_int) simp
  have b: "float_of_int ?m = of_int ?m"
    unfolding float_of_int_def using assms by (intro float_round_int) simp
  have c: "float_mul (of_int ?m) (1 / 2) = of_int ?m / 2"
    unfolding float_mul_def using float_round_half [of ?m] assms by simp
  have "float_add (of_int (?h * 30)) (of_int ?m / 2) = float_round (of_int (?h * 60 + ?m) / 2)"
    by (simp add: float_add_def add_divide_distrib mult.commute)
  also have "\<dots> = of_int (?h * 60 + ?m) / 2"
    using h assms by (intro float_round_half) simp
  finally show ?thesis
    by (simp add: calculate_hour_angle_def a b c add_divide_distrib)
qed

text \<open>
  Claim C10. For a time with hour in \<open>[0, 24)\<close>, minute in \<open>[0, 60)\<close> and second in
  \<open>[0, 60)\<close>, the hour angle is \<open>(hour mod 12) * 30 + minute * 0.5\<close>, the minute angle
  \<open>minute * 6\<close>, the second angle \<open>second * 6\<close>, and each of the three is at least 0
  and below 360. The float arithmetic of the hour angle is exact on these values.
\<close>

theorem hand_angles:
  assumes "0 \<le> hour t" "hour t < 24" "0 \<le> minute t" "minute t < 60"
    "0 \<le> second t" "second t < 60"
  shows "calculate_hour_angle t = of_int (hour t mod 12) * 30 + of_int (minute t) * (1 / 2) \<and>
         calculate_minute_angle t = minute t * 6 \<and>
         calculate_second_angle t = second t * 6 \<and>
         0 \<le> calculate_hour_angle t \<and> calculate_hour_angle t < 360 \<and>
         0 \<le> calculate_minute_angle t \<and> calculate_minute_angle t < 360 \<and>
         0 \<le> calculate_second_angle t \<and> calculate_second_angle t < 360"
proof -
  have h: "0 \<le> hour t mod 12" "hour t mod 12 \<le> 11" by simp_all
  then have "(0::rat) \<le> of_int (hour t mod 12)" "of_int (hour t mod 12) \<le> (11::rat)"
    by (simp_all only: of_int_0_le_iff of_int_le_numeral_iff)
  moreover from assms have "(0::rat) \<le> of_int (minute t)" "of_int (minute t) \<le> (59::rat)"
    by simp_all
  ultimately have "0 \<le> calculate_hour_angle t" "calculate_hour_angle t < 360"
    unfolding hour_angle_exact [OF assms(1-4)] by linarith+
  with assms show ?thesis
    by (simp add: hour_angle_exact calculate_minute_angle_def calculate_second_angle_def)
qed

theorem hand_angles_witness:
  "calculate_hour_angle \<lparr>ordinal = 738000, hour = 23, minute = 59, second = 59, microsecond = 0\<rparr>
     = 719 / 2 \<and>
   calculate_minute_angle \<lparr>ordinal = 738000, hour = 23, minute = 59, second = 59, microsecond = 0\<rparr>
     = 354 \<and>
   calculate_second_angle \<lparr>ordinal = 738000, hour = 23, minute = 59, second = 59, microsecond = 0\<rparr>
     = 354"
  using hand_angles [of "\<lparr>ordinal = 738000, hour = 23, minute = 59, second = 59, microsecond = 0\<rparr>"]
  by simp

section \<open>The manual offset of a clock\<close>

lemma ClockNode_init_known:
  "tzdb tz \<Longrightarrow> ClockNode_init tzdb city tz img = Inr (fresh_node city tz img)"
  by (simp add: ClockNode_init_def fresh_node_def)

lemma timedelta_hm_Inr: "timedelta_hm h m = Inr td \<Longrightarrow> td = h * 3600 + m * 60"
  by (auto simp: timedelta_hm_def Let_def split: if_splits)

lemma call_offset_keeps:
  assumes "time_offset nd \<noteq> 0 \<longrightarrow> is_modified nd"
  shows "time_offset (snd (call_offset c nd)) \<noteq> 0 \<longrightarrow> is_modified (snd (call_offset c nd))"
proof (cases c)
  case (SetOffset h m)
  show ?thesis
  proof (cases "timedelta_hm h m")
    case (Inl e)
    with SetOffset assms show ?thesis by (simp add: set_time_offset_def)
  next
    case (Inr td)
    from timedelta_hm_Inr [OF Inr] SetOffset Inr show ?thesis
      by (auto simp: set_time_offset_def)
  qed
next
  case ResetOffset
  then show ?thesis by (simp add: reset_time_offset_def)
qed

lemma call_offsets_keeps:
  "(time_offset nd \<noteq> 0 \<longrightarrow> is_modified nd) \<Longrightarrow>
   time_offset (call_offsets cs nd) \<noteq> 0 \<longrightarrow> is_modified (call_offsets cs nd)"
proof (induction cs arbitrary: nd)
  case Nil
  then show ?case by simp
next
  case (Cons c cs)
  from Cons.IH [OF call_offset_keeps [OF Cons.prems]] show ?case by simp
qed

text \<open>
  Claim C2, as amended. After any sequence of \<^verbatim>\<open>set_time_offset\<close> and
  \<^verbatim>\<open>reset_time_offset\<close> calls on a new node, a non-zero offset implies that
  \<open>is_modified\<close> is true. A call \<^verbatim>\<open>set_time_offset(hours, minutes)\<close> that returns stores
  the offset \<open>hours * 3600 + minutes * 60\<close> seconds and the flag
  \<open>hours \<noteq> 0 \<or> minutes \<noteq> 0\<close>; the flag agrees with "the stored offset is non-zero"
  exactly when the two arguments do not cancel (\<open>hours \<noteq> 0\<close> with
  \<open>minutes = - 60 * hours\<close>).
\<close>

theorem modified_flag:
  assumes "ClockNode_init tzdb city tz img = Inr nd0"
  shows "(time_offset (call_offsets cs nd0) \<noteq> 0 \<longrightarrow> is_modified (call_offsets cs nd0)) \<and>
         (set_time_offset hours minutes nd = (Inr (), nd') \<longrightarrow>
            (is_modified nd' \<longleftrightarrow> hours \<noteq> 0 \<or> minutes \<noteq> 0) \<and>
            time_offset nd' = hours * 3600 + minutes * 60 \<and>
            ((is_modified nd' \<longleftrightarrow> time_offset nd' \<noteq> 0) \<longleftrightarrow>
               \<not> (hours \<noteq> 0 \<and> minutes = - 60 * hours)))"
proof (intro conjI impI)
  from assms have "time_offset nd0 = 0"
    by (auto simp: ClockNode_init_def split: if_splits)
  then have "time_offset nd0 \<noteq> 0 \<longrightarrow> is_modified nd0" by simp
  from call_offsets_keeps [OF this]
  show "time_offset (call_offsets cs nd0) \<noteq> 0 \<Longrightarrow> is_modified (call_offsets cs nd0)"
    by simp
next
  assume s: "set_time_offset hours minutes nd = (Inr (), nd')"
  then obtain td where td: "timedelta_hm hours minutes = Inr td"
    and nd': "nd' = nd\<lparr>time_offset := td, is_modified := (hours \<noteq> 0 \<or> minutes \<noteq> 0)\<rparr>"
    by (auto simp: set_time_offset_def split: sum.splits)
  from timedelta_hm_Inr [OF td] have v: "td = hours * 3600 + minutes * 60" .
  show "is_modified nd' \<longleftrightarrow> hours \<noteq> 0 \<or> minutes \<noteq> 0" by (simp add: nd')
  show "time_offset nd' = hours * 3600 + minutes * 60" by (simp add: nd' v)
  show "(is_modified nd' \<longleftrightarrow> time_offset nd' \<noteq> 0) \<longleftrightarrow>
          \<not> (hours \<noteq> 0 \<and> minutes = - 60 * hours)"
    unfolding nd' v by auto
qed

theorem modified_flag_witness:
  "is_modified (call_offsets [SetOffset (- 1) (- 30), ResetOffset, SetOffset 2 15]
       (fresh_node ''Colombia'' ''America/Bogota'' ''clock_colombia.png'')) \<and>
   time_offset (snd (set_time_offset 2 15
       (fresh_node ''Colombia'' ''America/Bogota'' ''clock_colombia.png''))) = 8100"
  using modified_flag [of "\<lambda>tz. True" "''Colombia''" "''America/Bogota''" "''clock_colombia.png''"
      "fresh_node ''Colombia'' ''America/Bogota'' ''clock_colombia.png''"
      "[SetOffset (- 1) (- 30), ResetOffset, SetOffset 2 15]"
      2 15 "fresh_node ''Colombia'' ''America/Bogota'' ''clock_colombia.png''"
      "snd (set_time_offset 2 15 (fresh_node ''Colombia'' ''America/Bogota'' ''clock_colombia.png''))"]
  by (simp add: ClockNode_init_def fresh_node_def set_time_offset_def reset_time_offset_def
      timedelta_hm_def)

text \<open>
  The claim as stated fails: \<^verbatim>\<open>set_time_offset(1, -60)\<close> returns, stores the zero
  offset and sets \<open>is_modified\<close>.
\<close>

theorem modified_flag_counterexample:
  "fst (set_time_offset 1 (- 60) (fresh_node ''Colombia'' ''America/Bogota'' ''clock_colombia.png''))
     = Inr () \<and>
   is_modified (snd (set_time_offset 1 (- 60)
       (fresh_node ''Colombia'' ''America/Bogota'' ''clock_colombia.png''))) \<and>
   time_offset (snd (set_time_offset 1 (- 60)
       (fresh_node ''Colombia'' ''America/Bogota'' ''clock_colombia.png''))) = 0 \<and>
   \<not> (is_modified (call_offsets [SetOffset 1 (- 60)]
           (fresh_node ''Colombia'' ''America/Bogota'' ''clock_colombia.png'')) \<longleftrightarrow>
       time_offset (call_offsets [SetOffset 1 (- 60)]
           (fresh_node ''Colombia'' ''America/Bogota'' ''clock_colombia.png'')) \<noteq> 0)"
  by (simp add: fresh_node_def set_time_offset_def timedelta_hm_def)

subsection \<open>The offset fields of \<^verbatim>\<open>get_clock_data\<close>\<close>

lemma py_int_of_int: "py_int (of_int k) = k"
  by (simp add: py_int_def)

lemma offset_fields:
  assumes "\<bar>time_offset nd\<bar> < 2 ^ 53"
  shows "offset_hours nd = time_offset nd div 3600"
    and "offset_minutes nd = (time_offset nd mod 3600) div 60"
proof -
  let ?s = "time_offset nd"
  define m where "m = ?s mod 3600"
  have m: "0 \<le> m" "m < 3600" by (simp_all add: m_def)
  then have md: "0 \<le> m div 60" "m div 60 < 60" by presburger+
  have ts: "total_seconds ?s = of_int ?s"
    using float_round_int [OF assms] by (simp add: total_seconds_def int_truediv_def)
  have c1: "float_of_int 3600 = 3600" and c2: "float_of_int 60 = 60"
    using float_round_int [of 3600] float_round_int [of 60] by (simp_all add: float_of_int_def)
  have fl: "\<lfloor>(of_int ?s :: rat) / 3600\<rfloor> = ?s div 3600"
    using floor_divide_of_int_eq [of ?s 3600, where ?'a = rat] by simp
  have b1: "\<bar>?s div 3600\<bar> < 2 ^ 53" using assms by simp
  have fd: "float_floordiv (of_int ?s) 3600 = of_int (?s div 3600)"
    unfolding float_floordiv_def fl by (rule float_round_int [OF b1])
  show "offset_hours nd = ?s div 3600"
    by (simp add: offset_hours_def ts c1 fd py_int_of_int)
  have "(of_int ?s :: rat) - 3600 * of_int (?s div 3600) = of_int (?s - 3600 * (?s div 3600))"
    by simp
  also have "?s - 3600 * (?s div 3600) = m"
    unfolding m_def by (simp add: minus_mult_div_eq_mod)
  finally have e: "(of_int ?s :: rat) - 3600 * of_int (?s div 3600) = of_int m" .
  have "\<bar>m\<bar> < 2 ^ 53" using m by simp
  then have fm: "float_mod (of_int ?s) 3600 = of_int m"
    unfolding float_mod_def fl e by (rule float_round_int)
  have fl2: "\<lfloor>(of_int m :: rat) / 60\<rfloor> = m div 60"
    using floor_divide_of_int_eq [of m 60, where ?'a = rat] by simp
  have "\<bar>m div 60\<bar> < 2 ^ 53" using md by simp
  then have "float_floordiv (of_int m) 60 = of_int (m div 60)"
    unfolding float_floordiv_def fl2 by (rule float_round_int)
  then show "offset_minutes nd = (?s mod 3600) div 60"
    by (simp add: offset_minutes_def ts c1 c2 fm py_int_of_int m_def)
qed

lemma offset_fields_lossless:
  assumes "\<bar>time_offset nd\<bar> < 2 ^ 53"
  shows "offset_hours nd * 60 + offset_minutes nd = time_offset nd div 60"
    and "0 \<le> offset_minutes nd" and "offset_minutes nd < 60"
  proof -
  define s where "s = time_offset nd"
  have "(s div 3600) * 60 + (s mod 3600) div 60 = s div 60"
  proof -
    have "s = 60 * (60 * (s div 3600)) + s mod 3600"
      using mult_div_mod_eq [of 3600 s] by simp
    then have "s div 60 = (60 * (60 * (s div 3600)) + s mod 3600) div 60" by simp
    also have "\<dots> = 60 * (s div 3600) + (s mod 3600) div 60"
      by (simp only: div_mult_self4 [of 60])
    finally show ?thesis by simp
  qed
  then show "offset_hours nd * 60 + offset_minutes nd = time_offset nd div 60"
    unfolding offset_fields [OF assms] s_def .
  define m where "m = s mod 3600"
  have "0 \<le> m" "m < 3600" by (simp_all add: m_def)
  then have "0 \<le> m div 60" "m div 60 < 60" by presburger+
  then have "0 \<le> (s mod 3600) div 60 \<and> (s mod 3600) div 60 < 60"
    by (simp add: m_def)
  then show "0 \<le> offset_minutes nd" and "offset_minutes nd < 60"
    unfolding offset_fields [OF assms] s_def by simp_all
qed

lemma set_time_offset_minus_90:
  "set_time_offset (- 1) (- 30) (fresh_node city tz img) =
     (Inr (), (fresh_node city tz img)\<lparr>time_offset := - 5400, is_modified := True\<rparr>)"
  by (simp add: set_time_offset_def timedelta_hm_def)

text \<open>
  Claim C1. The pair \<open>(offset_hours, offset_minutes)\<close> of \<^verbatim>\<open>get_clock_data\<close> is
  lossless (\<open>offset_fields_lossless\<close>), but it is the floor of the hours and a remainder
  that is never negative. For the offset of minus one hour and minus thirty minutes,
  which the claim names and which \<^verbatim>\<open>set_time_offset(-1, -30)\<close> stores as -5400 seconds
  (\<open>set_time_offset_minus_90\<close>), the dictionary holds -2 hours and +30 minutes: the
  minutes do not have the sign of the offset.
\<close>

theorem offset_sign_failing_input:
  "map_sum id (\<lambda>cd. (cd_offset_hours cd, cd_offset_minutes cd))
     (get_clock_data
        (\<lambda>t tz. \<lparr>ordinal = 739000, hour = 9, minute = 0, second = 0, microsecond = 0\<rparr>) 0
        ((fresh_node ''Colombia'' ''America/Bogota'' ''clock_colombia.png'')
           \<lparr>time_offset := - 5400, is_modified := True\<rparr>))
     = Inr (- 2, 30)"
proof -
  let ?nd = "(fresh_node ''Colombia'' ''America/Bogota'' ''clock_colombia.png'')
           \<lparr>time_offset := - 5400, is_modified := True\<rparr>"
  have t: "time_offset ?nd = - 5400" by simp
  then have "\<bar>time_offset ?nd\<bar> < 2 ^ 53" by simp
  from offset_fields [OF this] have "offset_hours ?nd = - 2" "offset_minutes ?nd = 30"
    unfolding t by simp_all
  then show ?thesis
    by (simp add: get_clock_data_def get_current_time_def is_daytime_def datetime_add_def)
qed

section \<open>Traversal of the ring\<close>

lemma clock_list_value:
  assumes "tzdb ''America/Bogota''" "tzdb ''Europe/London''" "tzdb ''Asia/Shanghai''"
  shows "clock_list tzdb =
    \<lparr>nodes =
       [(fresh_node ''Colombia'' ''America/Bogota'' ''clock_colombia.png'')
           \<lparr>next_clock := Some 1, previous_clock := Some 2\<rparr>,
        (fresh_node ''United Kingdom'' ''Europe/London'' ''clock_uk.png'')
           \<lparr>next_clock := Some 2, previous_clock := Some 0\<rparr>,
        (fresh_node ''China'' ''Asia/Shanghai'' ''clock_china.png'')
           \<lparr>next_clock := Some 0, previous_clock := Some 1\<rparr>],
     head_clock = Some 0, clock_count = 3\<rparr>"
  using assms
  by (simp add: clock_list_def add_clock_def ClockNode_init_def CircularClockList_init_def
      fresh_node_def Let_def set_next_def set_previous_def deref_def assign_next_def)

lemma reachable_clock_list: "reachable tzdb (clock_list tzdb)"
  unfolding clock_list_def by (intro reachable.add reachable.init)


lemma ring_ok_links:
  assumes "ring_ok l" "a < length (nodes l)"
  shows "\<exists>b. next_of (nodes l) (Some a) = Inr (Some b) \<and> previous_of (nodes l) (Some b) = Inr (Some a)"
    and "\<exists>c. previous_of (nodes l) (Some a) = Inr (Some c) \<and> next_of (nodes l) (Some c) = Inr (Some a)"
proof -
  let ?n = "length (nodes l)"
  show "\<exists>b. next_of (nodes l) (Some a) = Inr (Some b) \<and> previous_of (nodes l) (Some b) = Inr (Some a)"
  proof (cases "Suc a = ?n")
    case True
    with assms have "next_of (nodes l) (Some a) = Inr (Some 0)"
      by (simp add: next_of_ok)
    moreover from assms(2) have z: "0 < ?n" by linarith
    from previous_of_ok [OF assms(1) z] True
    have "previous_of (nodes l) (Some 0) = Inr (Some a)" by auto
    ultimately show ?thesis by blast
  next
    case False
    with assms have b: "Suc a < ?n" by simp
    from False assms have "next_of (nodes l) (Some a) = Inr (Some (Suc a))"
      by (simp add: next_of_ok)
    moreover from previous_of_ok [OF assms(1) b]
    have "previous_of (nodes l) (Some (Suc a)) = Inr (Some a)" by simp
    ultimately show ?thesis by blast
  qed
  show "\<exists>c. previous_of (nodes l) (Some a) = Inr (Some c) \<and> next_of (nodes l) (Some c) = Inr (Some a)"
  proof (cases "a = 0")
    case True
    from assms(2) have n: "?n - 1 < ?n" by simp
    from True assms have "previous_of (nodes l) (Some a) = Inr (Some (?n - 1))"
      by (simp add: previous_of_ok)
    moreover from next_of_ok [OF assms(1) n] True assms(2)
    have "next_of (nodes l) (Some (?n - 1)) = Inr (Some a)" by simp
    ultimately show ?thesis by blast
  next
    case False
    with assms(2) have c: "a - 1 < ?n" by simp
    from False assms have "previous_of (nodes l) (Some a) = Inr (Some (a - 1))"
      by (simp add: previous_of_ok)
    moreover from next_of_ok [OF assms(1) c] False assms(2)
    have "next_of (nodes l) (Some (a - 1)) = Inr (Some a)" by simp
    ultimately show ?thesis by blast
  qed
qed

lemma clock_list_known:
  "clock_list known_zones = \<lparr>nodes =
       [(fresh_node ''Colombia'' ''America/Bogota'' ''clock_colombia.png'')
           \<lparr>next_clock := Some 1, previous_clock := Some 2\<rparr>,
        (fresh_node ''United Kingdom'' ''Europe/London'' ''clock_uk.png'')
           \<lparr>next_clock := Some 2, previous_clock := Some 0\<rparr>,
        (fresh_node ''China'' ''Asia/Shanghai'' ''clock_china.png'')
           \<lparr>next_clock := Some 0, previous_clock := Some 1\<rparr>],
     head_clock = Some 0, clock_count = 3\<rparr>"
  by (rule clock_list_value) (simp_all add: known_zones_def)

lemma clock_list_next:
  "next_of (nodes (clock_list known_zones)) (Some 0) = Inr (Some (Suc 0))"
  "next_of (nodes (clock_list known_zones)) (Some (Suc 0)) = Inr (Some 2)"
  "next_of (nodes (clock_list known_zones)) (Some 2) = Inr (Some 0)"
  by (simp_all add: clock_list_known next_of_def deref_def)

text \<open>
  Claim C7. In every reachable ring and for every integer index,
  \<^verbatim>\<open>get_clock_at_index\<close> returns (it does not raise); the result is \<^verbatim>\<open>None\<close> exactly when
  the index is negative, or at least \<open>clock_count\<close>, or the ring is empty; otherwise it
  is the record reached from the head by following \<^verbatim>\<open>next_clock\<close> index times, a
  record linked into the ring.
\<close>

theorem index_lookup:
  assumes "reachable tzdb l"
  shows "\<exists>r. get_clock_at_index index l = Inr r \<and>
           (r = None \<longleftrightarrow> index < 0 \<or> int (clock_count l) \<le> index \<or> head_clock l = None) \<and>
           (r \<noteq> None \<longrightarrow>
              follow_next (nodes l) (nat index) (head_clock l) = Inr r \<and>
              (\<exists>a \<in> linked l. r = Some a))"
proof -
  from assms have ok: "ring_ok l" by (rule reachable_ring_ok)
  then have c: "clock_count l = length (nodes l)"
    and h: "head_clock l = (if nodes l = [] then None else Some 0)"
    by (simp_all add: ring_ok_def)
  show ?thesis
  proof (cases "index < 0 \<or> int (length (nodes l)) \<le> index")
    case True
    with get_clock_at_index_ok [OF ok, of index]
    have g: "get_clock_at_index index l = Inr None" by simp
    from True c have "index < 0 \<or> int (clock_count l) \<le> index \<or> head_clock l = None"
      by auto
    with g show ?thesis by blast
  next
    case False
    then have i: "0 \<le> index" "nat index < length (nodes l)" by linarith+
    with get_clock_at_index_ok [OF ok, of index] False
    have g: "get_clock_at_index index l = Inr (Some (nat index))" by simp
    have ne: "nodes l \<noteq> []"
    proof
      assume "nodes l = []"
      with i show False by simp
    qed
    with h have hd: "head_clock l = Some 0" by simp
    from ne have z: "0 < length (nodes l)" by simp
    from follow_next_ok [OF ok z, of "nat index"] i
    have f: "follow_next (nodes l) (nat index) (head_clock l) = Inr (Some (nat index))"
      by (simp add: hd)
    from i have m: "nat index \<in> linked l" by (simp add: linked_ok [OF ok])
    have n: "\<not> (index < 0 \<or> int (clock_count l) \<le> index \<or> head_clock l = None)"
      using False c hd by simp
    show ?thesis
    proof (intro exI conjI impI)
      show "get_clock_at_index index l = Inr (Some (nat index))" by (rule g)
      show "Some (nat index) = None \<longleftrightarrow>
          index < 0 \<or> int (clock_count l) \<le> index \<or> head_clock l = None"
        using n by simp
      show "follow_next (nodes l) (nat index) (head_clock l) = Inr (Some (nat index))"
        by (rule f)
      show "\<exists>a \<in> linked l. Some (nat index) = Some a" using m by blast
    qed
  qed
qed

theorem index_lookup_witness:
  "get_clock_at_index 2 (clock_list known_zones) = Inr (Some 2) \<and>
   get_clock_at_index 3 (clock_list known_zones) = Inr None \<and>
   get_clock_at_index (- 1) (clock_list known_zones) = Inr None \<and>
   get_clock_at_index 0 CircularClockList_init = Inr None"
proof -
  let ?l = "clock_list known_zones"
  have r: "reachable known_zones ?l" by (rule reachable_clock_list)
  have e: "reachable known_zones CircularClockList_init" by (rule reachable.init)
  have c: "clock_count ?l = 3" and h: "head_clock ?l = Some 0"
    by (simp_all add: clock_list_known)
  have f: "follow_next (nodes ?l) (Suc (Suc 0)) (Some 0) = Inr (Some 2)"
    by (simp add: clock_list_next)
  have n2: "nat 2 = Suc (Suc 0)" by simp
  from index_lookup [OF r, of 2] obtain r2 where
    x2: "get_clock_at_index 2 ?l = Inr r2 \<and>
      (r2 = None \<longleftrightarrow> (2::int) < 0 \<or> int (clock_count ?l) \<le> 2 \<or> head_clock ?l = None) \<and>
      (r2 \<noteq> None \<longrightarrow>
       follow_next (nodes ?l) (nat 2) (head_clock ?l) = Inr r2 \<and> (\<exists>a \<in> linked ?l. r2 = Some a))" ..
  from x2 have a2: "get_clock_at_index 2 ?l = Inr r2" by (rule conjunct1)
  from x2 have b2: "r2 = None \<longleftrightarrow> (2::int) < 0 \<or> int (clock_count ?l) \<le> 2 \<or> head_clock ?l = None"
    by (rule conjunct1 [OF conjunct2])
  from x2 have d2: "r2 \<noteq> None \<longrightarrow>
       follow_next (nodes ?l) (nat 2) (head_clock ?l) = Inr r2 \<and> (\<exists>a \<in> linked ?l. r2 = Some a)"
    by (rule conjunct2 [OF conjunct2])
  from b2 have "r2 \<noteq> None" by (simp add: c h)
  with d2 have "follow_next (nodes ?l) (nat 2) (head_clock ?l) = Inr r2" by simp
  then have "r2 = Some 2" by (simp only: n2 h f sum.inject)
  with a2 have g2: "get_clock_at_index 2 ?l = Inr (Some 2)" by simp
  from index_lookup [OF r, of 3] obtain r3 where
    x3: "get_clock_at_index 3 ?l = Inr r3 \<and> (r3 = None \<longleftrightarrow> (3::int) < 0 \<or> int (clock_count ?l) \<le> 3 \<or> head_clock ?l = None) \<and>
      (r3 \<noteq> None \<longrightarrow>
       follow_next (nodes ?l) (nat 3) (head_clock ?l) = Inr r3 \<and> (\<exists>a \<in> linked ?l. r3 = Some a))" ..
  from x3 have a3: "get_clock_at_index 3 ?l = Inr r3" by (rule conjunct1)
  from x3 have b3: "r3 = None \<longleftrightarrow> (3::int) < 0 \<or> int (clock_count ?l) \<le> 3 \<or> head_clock ?l = None"
    by (rule conjunct1 [OF conjunct2])
  from b3 have "r3 = None" by (simp add: c)
  with a3 have g3: "get_clock_at_index 3 ?l = Inr None" by simp
  from index_lookup [OF r, of "- 1"] obtain r1 where
    x1: "get_clock_at_index (- 1) ?l = Inr r1 \<and> (r1 = None \<longleftrightarrow> (- 1::int) < 0 \<or> int (clock_count ?l) \<le> - 1 \<or> head_clock ?l = None) \<and>
      (r1 \<noteq> None \<longrightarrow>
       follow_next (nodes ?l) (nat (- 1)) (head_clock ?l) = Inr r1 \<and> (\<exists>a \<in> linked ?l. r1 = Some a))" ..
  from x1 have a1: "get_clock_at_index (- 1) ?l = Inr r1" by (rule conjunct1)
  from x1 have b1: "r1 = None \<longleftrightarrow> (- 1::int) < 0 \<or> int (clock_count ?l) \<le> - 1 \<or> head_clock ?l = None"
    by (rule conjunct1 [OF conjunct2])
  from b1 have "r1 = None" by simp
  with a1 have g1: "get_clock_at_index (- 1) ?l = Inr None" by simp
  from index_lookup [OF e, of 0] obtain r0 where
    x0: "get_clock_at_index 0 CircularClockList_init = Inr r0 \<and> (r0 = None \<longleftrightarrow> (0::int) < 0 \<or> int (clock_count CircularClockList_init) \<le> 0 \<or>
        head_clock CircularClockList_init = None) \<and>
      (r0 \<noteq> None \<longrightarrow>
       follow_next (nodes CircularClockList_init) (nat 0) (head_clock CircularClockList_init) = Inr r0 \<and> (\<exists>a \<in> linked CircularClockList_init. r0 = Some a))" ..
  from x0 have a0: "get_clock_at_index 0 CircularClockList_init = Inr r0" by (rule conjunct1)
  from x0 have b0: "r0 = None \<longleftrightarrow> (0::int) < 0 \<or> int (clock_count CircularClockList_init) \<le> 0 \<or>
        head_clock CircularClockList_init = None"
    by (rule conjunct1 [OF conjunct2])
  from b0 have "r0 = None" by (simp add: CircularClockList_init_def)
  with a0 have g0: "get_clock_at_index 0 CircularClockList_init = Inr None" by simp
  from g2 g3 g1 g0 show ?thesis by (intro conjI)
qed

text \<open>
  Claim C3. In every reachable ring (any sequence of \<^verbatim>\<open>add_clock\<close> calls, with offset
  changes in between), from every linked record \<open>clock_count\<close> steps of \<^verbatim>\<open>next_clock\<close>
  lead back to it, and so do \<open>clock_count\<close> steps of \<^verbatim>\<open>previous_clock\<close>; for every linked
  record \<open>r\<close>, \<^verbatim>\<open>r.next_clock.previous_clock\<close> and \<^verbatim>\<open>r.previous_clock.next_clock\<close> are \<open>r\<close>;
  and \<open>clock_count\<close> is the number of linked records, non-zero when there is a head.
\<close>

theorem ring_circular:
  assumes "reachable tzdb l"
  shows "(\<forall>a \<in> linked l.
            follow_next (nodes l) (clock_count l) (Some a) = Inr (Some a) \<and>
            follow_previous (nodes l) (clock_count l) (Some a) = Inr (Some a) \<and>
            (\<exists>b. next_of (nodes l) (Some a) = Inr (Some b) \<and>
                 previous_of (nodes l) (Some b) = Inr (Some a)) \<and>
            (\<exists>c. previous_of (nodes l) (Some a) = Inr (Some c) \<and>
                 next_of (nodes l) (Some c) = Inr (Some a))) \<and>
         card (linked l) = clock_count l \<and>
         (head_clock l \<noteq> None \<longrightarrow> 0 < clock_count l)"
proof -
  from assms have ok: "ring_ok l" by (rule reachable_ring_ok)
  then have c: "clock_count l = length (nodes l)"
    and h: "head_clock l = (if nodes l = [] then None else Some 0)"
    by (simp_all add: ring_ok_def)
  have lk: "linked l = {0..<length (nodes l)}" by (rule linked_ok [OF ok])
  have "card (linked l) = clock_count l" by (simp add: lk c)
  moreover have "head_clock l \<noteq> None \<longrightarrow> 0 < clock_count l"
    using c h by (auto split: if_splits)
  moreover have "\<forall>a \<in> linked l.
            follow_next (nodes l) (clock_count l) (Some a) = Inr (Some a) \<and>
            follow_previous (nodes l) (clock_count l) (Some a) = Inr (Some a) \<and>
            (\<exists>b. next_of (nodes l) (Some a) = Inr (Some b) \<and>
                 previous_of (nodes l) (Some b) = Inr (Some a)) \<and>
            (\<exists>c. previous_of (nodes l) (Some a) = Inr (Some c) \<and>
                 next_of (nodes l) (Some c) = Inr (Some a))"
  proof
    fix a assume "a \<in> linked l"
    then have a: "a < length (nodes l)" by (simp add: lk)
    show "follow_next (nodes l) (clock_count l) (Some a) = Inr (Some a) \<and>
            follow_previous (nodes l) (clock_count l) (Some a) = Inr (Some a) \<and>
            (\<exists>b. next_of (nodes l) (Some a) = Inr (Some b) \<and>
                 previous_of (nodes l) (Some b) = Inr (Some a)) \<and>
            (\<exists>c. previous_of (nodes l) (Some a) = Inr (Some c) \<and>
                 next_of (nodes l) (Some c) = Inr (Some a))"
      unfolding c
      using follow_next_round [OF ok a] follow_previous_round [OF ok a] ring_ok_links [OF ok a]
      by (intro conjI)
  qed
  ultimately show ?thesis by (intro conjI)
qed

theorem ring_circular_witness:
  "follow_next (nodes (clock_list known_zones)) 3 (Some (Suc 0)) = Inr (Some (Suc 0)) \<and>
   follow_previous (nodes (clock_list known_zones)) 3 (Some (Suc 0)) = Inr (Some (Suc 0)) \<and>
   card (linked (clock_list known_zones)) = 3"
proof -
  have r: "reachable known_zones (clock_list known_zones)" by (rule reachable_clock_list)
  have c: "clock_count (clock_list known_zones) = 3" by (simp add: clock_list_known)
  have "head_clock (clock_list known_zones) = Some 0" by (simp add: clock_list_known)
  then have "0 \<in> linked (clock_list known_zones)" by (rule linked.head)
  then have m: "Suc 0 \<in> linked (clock_list known_zones)"
    using clock_list_next(1) by (rule linked.step)
  from ring_circular [OF r] have
    a: "\<forall>a \<in> linked (clock_list known_zones).
          follow_next (nodes (clock_list known_zones)) (clock_count (clock_list known_zones)) (Some a)
            = Inr (Some a) \<and>
          follow_previous (nodes (clock_list known_zones)) (clock_count (clock_list known_zones)) (Some a)
            = Inr (Some a)"
    and k: "card (linked (clock_list known_zones)) = clock_count (clock_list known_zones)"
    by blast+
  from bspec [OF a m] k show ?thesis unfolding c by simp
qed

section \<open>Appending a clock\<close>

lemma length_set_next [simp]: "length (set_next a v ns) = length ns"
  by (simp add: set_next_def)

lemma length_set_previous [simp]: "length (set_previous a v ns) = length ns"
  by (simp add: set_previous_def)

lemma add_clock_known:
  assumes "ring_ok l" "tzdb tz"
  shows "fst (add_clock tzdb city tz img l) = Inr ()"
    and "length (nodes (snd (add_clock tzdb city tz img l))) = Suc (length (nodes l))"
    and "city_name (nodes (snd (add_clock tzdb city tz img l)) ! length (nodes l)) = city"
proof -
  show "fst (add_clock tzdb city tz img l) = Inr ()"
    using assms by (cases "nodes l = []") (simp_all add: add_clock_empty add_clock_nonempty)
  show "length (nodes (snd (add_clock tzdb city tz img l))) = Suc (length (nodes l))"
    using assms by (cases "nodes l = []") (simp_all add: add_clock_empty add_clock_nonempty)
  show "city_name (nodes (snd (add_clock tzdb city tz img l)) ! length (nodes l)) = city"
  proof (cases "nodes l = []")
    case True
    with assms show ?thesis by (simp add: add_clock_empty fresh_node_def)
  next
    case False
    then have "0 < length (nodes l)" by simp
    then have "length (nodes l) - Suc 0 \<noteq> length (nodes l)" by linarith
    with False assms show ?thesis
      by (simp add: add_clock_nonempty set_next_def set_previous_def nth_list_update nth_append
          fresh_node_def)
  qed
qed

lemma ring_ok_linked_symmetric:
  assumes "ring_ok l"
  shows "\<forall>a \<in> linked l.
           (\<exists>b. next_of (nodes l) (Some a) = Inr (Some b) \<and>
                previous_of (nodes l) (Some b) = Inr (Some a)) \<and>
           (\<exists>c. previous_of (nodes l) (Some a) = Inr (Some c) \<and>
                next_of (nodes l) (Some c) = Inr (Some a))"
proof
  fix a assume "a \<in> linked l"
  then have a: "a < length (nodes l)" by (simp add: linked_ok [OF assms])
  from ring_ok_links [OF assms a]
  show "(\<exists>b. next_of (nodes l) (Some a) = Inr (Some b) \<and>
                previous_of (nodes l) (Some b) = Inr (Some a)) \<and>
           (\<exists>c. previous_of (nodes l) (Some a) = Inr (Some c) \<and>
                next_of (nodes l) (Some c) = Inr (Some a))"
    by (intro conjI)
qed

text \<open>
  Claim C8. \<^verbatim>\<open>add_clock\<close> with a timezone that the database does not know raises
  \<^verbatim>\<open>UnknownTimeZoneError\<close> and returns the ring unchanged: head, count, and every node
  with its links. With a known timezone it returns normally, the new record is linked
  into the ring next to the records linked before, and every linked record has
  symmetric links. Whenever the call raises, the ring is the one it was given.
\<close>

theorem append_atomic:
  assumes "reachable tzdb l"
  shows "(\<not> tzdb tz \<longrightarrow> add_clock tzdb city tz img l = (Inl UnknownTimeZoneError, l)) \<and>
         (tzdb tz \<longrightarrow>
            fst (add_clock tzdb city tz img l) = Inr () \<and>
            linked (snd (add_clock tzdb city tz img l)) = insert (length (nodes l)) (linked l) \<and>
            (\<forall>a \<in> linked (snd (add_clock tzdb city tz img l)).
               (\<exists>b. next_of (nodes (snd (add_clock tzdb city tz img l))) (Some a) = Inr (Some b) \<and>
                    previous_of (nodes (snd (add_clock tzdb city tz img l))) (Some b) = Inr (Some a)) \<and>
               (\<exists>c. previous_of (nodes (snd (add_clock tzdb city tz img l))) (Some a) = Inr (Some c) \<and>
                    next_of (nodes (snd (add_clock tzdb city tz img l))) (Some c) = Inr (Some a)))) \<and>
         (\<forall>e. fst (add_clock tzdb city tz img l) = Inl e \<longrightarrow>
              snd (add_clock tzdb city tz img l) = l)"
proof -
  let ?l' = "snd (add_clock tzdb city tz img l)"
  from assms have ok: "ring_ok l" by (rule reachable_ring_ok)
  from assms have "reachable tzdb ?l'" by (rule reachable.add)
  then have ok': "ring_ok ?l'" by (rule reachable_ring_ok)
  have A: "\<not> tzdb tz \<longrightarrow> add_clock tzdb city tz img l = (Inl UnknownTimeZoneError, l)"
    by (simp add: add_clock_unknown)
  have B: "tzdb tz \<longrightarrow>
            fst (add_clock tzdb city tz img l) = Inr () \<and>
            linked ?l' = insert (length (nodes l)) (linked l) \<and>
            (\<forall>a \<in> linked ?l'.
               (\<exists>b. next_of (nodes ?l') (Some a) = Inr (Some b) \<and>
                    previous_of (nodes ?l') (Some b) = Inr (Some a)) \<and>
               (\<exists>c. previous_of (nodes ?l') (Some a) = Inr (Some c) \<and>
                    next_of (nodes ?l') (Some c) = Inr (Some a)))"
  proof
    assume tz: "tzdb tz"
    have "linked ?l' = {0..<Suc (length (nodes l))}"
      unfolding linked_ok [OF ok'] add_clock_known(2) [where tzdb = tzdb and tz = tz, OF ok tz] ..
    also have "\<dots> = insert (length (nodes l)) (linked l)"
      unfolding linked_ok [OF ok] by (simp add: atLeast0_lessThan_Suc)
    finally have "linked ?l' = insert (length (nodes l)) (linked l)" .
    with add_clock_known(1) [where tzdb = tzdb and tz = tz, OF ok tz] ring_ok_linked_symmetric [OF ok']
    show "fst (add_clock tzdb city tz img l) = Inr () \<and>
            linked ?l' = insert (length (nodes l)) (linked l) \<and>
            (\<forall>a \<in> linked ?l'.
               (\<exists>b. next_of (nodes ?l') (Some a) = Inr (Some b) \<and>
                    previous_of (nodes ?l') (Some b) = Inr (Some a)) \<and>
               (\<exists>c. previous_of (nodes ?l') (Some a) = Inr (Some c) \<and>
                    next_of (nodes ?l') (Some c) = Inr (Some a)))"
      by (intro conjI)
  qed
  have C: "\<forall>e. fst (add_clock tzdb city tz img l) = Inl e \<longrightarrow> ?l' = l"
  proof (intro allI impI)
    fix e assume e: "fst (add_clock tzdb city tz img l) = Inl e"
    have "\<not> tzdb tz"
    proof
      assume "tzdb tz"
      from add_clock_known(1) [where tzdb = tzdb and tz = tz, OF ok this] e show False by simp
    qed
    then show "?l' = l" by (simp add: add_clock_unknown)
  qed
  from A B C show ?thesis by (intro conjI)
qed

theorem append_atomic_witness:
  "add_clock known_zones ''Mars'' ''Mars/Olympus'' ''clock_mars.png'' (clock_list known_zones)
     = (Inl UnknownTimeZoneError, clock_list known_zones) \<and>
   fst (add_clock known_zones ''Scotland'' ''Europe/London'' ''clock_sc.png''
          (clock_list known_zones)) = Inr () \<and>
   linked (snd (add_clock known_zones ''Scotland'' ''Europe/London'' ''clock_sc.png''
          (clock_list known_zones))) = insert 3 (linked (clock_list known_zones))"
proof -
  let ?l = "clock_list known_zones"
  have r: "reachable known_zones ?l" by (rule reachable_clock_list)
  have n: "length (nodes ?l) = 3" by (simp add: clock_list_known)
  have u: "\<not> known_zones ''Mars/Olympus''" by (simp add: known_zones_def)
  have k: "known_zones ''Europe/London''" by (simp add: known_zones_def)
  note t1 = append_atomic [OF r, where tz = "''Mars/Olympus''" and city = "''Mars''"
      and img = "''clock_mars.png''"]
  note t2 = append_atomic [OF r, where tz = "''Europe/London''" and city = "''Scotland''"
      and img = "''clock_sc.png''"]
  from t1 [THEN conjunct1] u
  have w1: "add_clock known_zones ''Mars'' ''Mars/Olympus'' ''clock_mars.png'' ?l
     = (Inl UnknownTimeZoneError, ?l)" by (rule mp)
  from t2 [THEN conjunct2, THEN conjunct1] k
  have w2: "fst (add_clock known_zones ''Scotland'' ''Europe/London'' ''clock_sc.png'' ?l) = Inr () \<and>
    linked (snd (add_clock known_zones ''Scotland'' ''Europe/London'' ''clock_sc.png'' ?l))
      = insert (length (nodes ?l)) (linked ?l) \<and>
    (\<forall>a \<in> linked (snd (add_clock known_zones ''Scotland'' ''Europe/London'' ''clock_sc.png'' ?l)).
       (\<exists>b. next_of (nodes (snd (add_clock known_zones ''Scotland'' ''Europe/London'' ''clock_sc.png'' ?l))) (Some a) = Inr (Some b) \<and>
            previous_of (nodes (snd (add_clock known_zones ''Scotland'' ''Europe/London'' ''clock_sc.png'' ?l))) (Some b) = Inr (Some a)) \<and>
       (\<exists>c. previous_of (nodes (snd (add_clock known_zones ''Scotland'' ''Europe/London'' ''clock_sc.png'' ?l))) (Some a) = Inr (Some c) \<and>
            next_of (nodes (snd (add_clock known_zones ''Scotland'' ''Europe/London'' ''clock_sc.png'' ?l))) (Some c) = Inr (Some a)))"
    by (rule mp)
  from w2 have w3: "fst (add_clock known_zones ''Scotland'' ''Europe/London'' ''clock_sc.png'' ?l) = Inr ()"
    by (rule conjunct1)
  from w2 have w4: "linked (snd (add_clock known_zones ''Scotland'' ''Europe/London'' ''clock_sc.png'' ?l))
      = insert 3 (linked ?l)"
    unfolding n by (rule conjunct1 [OF conjunct2])
  from w1 w3 w4 show ?thesis by (intro conjI)
qed

text \<open>
  Claim C9. In a reachable ring, \<^verbatim>\<open>add_clock\<close> with a known timezone returns normally and
  \<open>clock_count\<close> grows by one. The new record carries the given city. If the ring was
  empty it becomes the head and is its own next and previous record. Otherwise the
  head stays; the new record's next is the head, the head's previous is the new
  record, the new record's previous is the old tail (the head's previous before the
  call), and the old tail's next is the new record. The new record is found at the
  last index and the records before it keep their indices. For the ring of the module
  (Colombia, United Kingdom, China, in this order) the record at index 0 has the next
  city United Kingdom and the previous city China.
\<close>

theorem append_before_head:
  assumes "reachable tzdb l" "tzdb tz"
  shows "fst (add_clock tzdb city tz img l) = Inr () \<and>
         clock_count (snd (add_clock tzdb city tz img l)) = clock_count l + 1 \<and>
         city_of (nodes (snd (add_clock tzdb city tz img l))) (Inr (Some (length (nodes l)))) = Inr city \<and>
         (head_clock l = None \<longrightarrow>
            head_clock (snd (add_clock tzdb city tz img l)) = Some (length (nodes l)) \<and>
            next_of (nodes (snd (add_clock tzdb city tz img l))) (Some (length (nodes l)))
              = Inr (Some (length (nodes l))) \<and>
            previous_of (nodes (snd (add_clock tzdb city tz img l))) (Some (length (nodes l)))
              = Inr (Some (length (nodes l)))) \<and>
         (\<forall>h. head_clock l = Some h \<longrightarrow>
            head_clock (snd (add_clock tzdb city tz img l)) = Some h \<and>
            next_of (nodes (snd (add_clock tzdb city tz img l))) (Some (length (nodes l)))
              = Inr (Some h) \<and>
            previous_of (nodes (snd (add_clock tzdb city tz img l))) (Some h)
              = Inr (Some (length (nodes l))) \<and>
            previous_of (nodes (snd (add_clock tzdb city tz img l))) (Some (length (nodes l)))
              = previous_of (nodes l) (Some h) \<and>
            (\<exists>t. previous_of (nodes l) (Some h) = Inr (Some t) \<and>
                 next_of (nodes (snd (add_clock tzdb city tz img l))) (Some t)
                   = Inr (Some (length (nodes l))))) \<and>
         get_clock_at_index (int (clock_count l)) (snd (add_clock tzdb city tz img l))
           = Inr (Some (length (nodes l))) \<and>
         (\<forall>i. 0 \<le> i \<and> i < int (clock_count l) \<longrightarrow>
            get_clock_at_index i (snd (add_clock tzdb city tz img l)) = get_clock_at_index i l) \<and>
         (tzdb ''America/Bogota'' \<and> tzdb ''Europe/London'' \<and> tzdb ''Asia/Shanghai'' \<longrightarrow>
            next_city (clock_list tzdb) 0 = Inr ''United Kingdom'' \<and>
            previous_city (clock_list tzdb) 0 = Inr ''China'')"
proof -
  let ?l' = "snd (add_clock tzdb city tz img l)"
  let ?n = "length (nodes l)"
  from assms(1) have ok: "ring_ok l" by (rule reachable_ring_ok)
  from assms(1) have "reachable tzdb ?l'" by (rule reachable.add)
  then have ok': "ring_ok ?l'" by (rule reachable_ring_ok)
  note known = add_clock_known [where tzdb = tzdb and tz = tz and city = city and img = img,
      OF ok assms(2)]
  have len: "length (nodes ?l') = Suc ?n" by (rule known(2))
  have c: "clock_count l = ?n" using ok by (simp add: ring_ok_def)
  have c': "clock_count ?l' = Suc ?n" using ok' len by (simp add: ring_ok_def)
  have new: "?n < length (nodes ?l')" by (simp add: len)
  have nx: "next_of (nodes ?l') (Some ?n) = Inr (Some 0)"
    using next_of_ok [OF ok' new] by (simp add: len)
  have pv: "previous_of (nodes ?l') (Some ?n) = Inr (Some (?n - 1))"
  proof (cases "?n = 0")
    case True
    with previous_of_ok [OF ok' new] show ?thesis by (simp add: len)
  next
    case False
    with previous_of_ok [OF ok' new] show ?thesis by simp
  qed
  have p0: "previous_of (nodes ?l') (Some 0) = Inr (Some ?n)"
    using previous_of_ok [OF ok', of 0] by (simp add: len)
  have A: "fst (add_clock tzdb city tz img l) = Inr ()" by (rule known(1))
  have B: "clock_count ?l' = clock_count l + 1" by (simp add: c c')
  have C: "city_of (nodes ?l') (Inr (Some ?n)) = Inr city"
    using known(3) new by (simp add: city_of_def deref_def)
  have D: "head_clock l = None \<longrightarrow>
            head_clock ?l' = Some ?n \<and>
            next_of (nodes ?l') (Some ?n) = Inr (Some ?n) \<and>
            previous_of (nodes ?l') (Some ?n) = Inr (Some ?n)"
  proof
    assume "head_clock l = None"
    with ok have z: "?n = 0" by (simp add: ring_ok_def split: if_splits)
    from ok' len have "head_clock ?l' = Some 0"
      by (auto simp: ring_ok_def split: if_splits)
    with nx pv z show "head_clock ?l' = Some ?n \<and>
            next_of (nodes ?l') (Some ?n) = Inr (Some ?n) \<and>
            previous_of (nodes ?l') (Some ?n) = Inr (Some ?n)"
      by simp
  qed
  have E: "\<forall>h. head_clock l = Some h \<longrightarrow>
            head_clock ?l' = Some h \<and>
            next_of (nodes ?l') (Some ?n) = Inr (Some h) \<and>
            previous_of (nodes ?l') (Some h) = Inr (Some ?n) \<and>
            previous_of (nodes ?l') (Some ?n) = previous_of (nodes l) (Some h) \<and>
            (\<exists>t. previous_of (nodes l) (Some h) = Inr (Some t) \<and>
                 next_of (nodes ?l') (Some t) = Inr (Some ?n))"
  proof (intro allI impI)
    fix h assume hd: "head_clock l = Some h"
    with ok have h0: "h = 0" and ne: "nodes l \<noteq> []"
      by (auto simp: ring_ok_def split: if_splits)
    from ne have pos: "0 < ?n" by simp
    from ok' len have hd': "head_clock ?l' = Some 0"
      by (auto simp: ring_ok_def split: if_splits)
    have old: "previous_of (nodes l) (Some 0) = Inr (Some (?n - 1))"
      using previous_of_ok [OF ok pos] by simp
    from pos have t: "?n - 1 < length (nodes ?l')" by (simp add: len)
    from pos have "Suc (?n - 1) = ?n" by simp
    with next_of_ok [OF ok' t] have tl: "next_of (nodes ?l') (Some (?n - 1)) = Inr (Some ?n)"
      by (simp add: len)
    from old tl have "\<exists>t. previous_of (nodes l) (Some 0) = Inr (Some t) \<and>
                 next_of (nodes ?l') (Some t) = Inr (Some ?n)" by blast
    with hd' nx p0 pv old show "head_clock ?l' = Some h \<and>
            next_of (nodes ?l') (Some ?n) = Inr (Some h) \<and>
            previous_of (nodes ?l') (Some h) = Inr (Some ?n) \<and>
            previous_of (nodes ?l') (Some ?n) = previous_of (nodes l) (Some h) \<and>
            (\<exists>t. previous_of (nodes l) (Some h) = Inr (Some t) \<and>
                 next_of (nodes ?l') (Some t) = Inr (Some ?n))"
      unfolding h0 by simp
  qed
  have F: "get_clock_at_index (int (clock_count l)) ?l' = Inr (Some ?n)"
    unfolding get_clock_at_index_ok [OF ok'] len c by simp
  have G: "\<forall>i. 0 \<le> i \<and> i < int (clock_count l) \<longrightarrow>
            get_clock_at_index i ?l' = get_clock_at_index i l"
    unfolding get_clock_at_index_ok [OF ok'] get_clock_at_index_ok [OF ok] len c by simp
  have H: "tzdb ''America/Bogota'' \<and> tzdb ''Europe/London'' \<and> tzdb ''Asia/Shanghai'' \<longrightarrow>
            next_city (clock_list tzdb) 0 = Inr ''United Kingdom'' \<and>
            previous_city (clock_list tzdb) 0 = Inr ''China''"
  proof
    assume "tzdb ''America/Bogota'' \<and> tzdb ''Europe/London'' \<and> tzdb ''Asia/Shanghai''"
    then have v: "clock_list tzdb =
    \<lparr>nodes =
       [(fresh_node ''Colombia'' ''America/Bogota'' ''clock_colombia.png'')
           \<lparr>next_clock := Some 1, previous_clock := Some 2\<rparr>,
        (fresh_node ''United Kingdom'' ''Europe/London'' ''clock_uk.png'')
           \<lparr>next_clock := Some 2, previous_clock := Some 0\<rparr>,
        (fresh_node ''China'' ''Asia/Shanghai'' ''clock_china.png'')
           \<lparr>next_clock := Some 0, previous_clock := Some 1\<rparr>],
     head_clock = Some 0, clock_count = 3\<rparr>"
      by (intro clock_list_value) simp_all
    show "next_city (clock_list tzdb) 0 = Inr ''United Kingdom'' \<and>
            previous_city (clock_list tzdb) 0 = Inr ''China''"
      unfolding v
      by (simp add: next_city_def previous_city_def get_clock_at_index_def city_of_def
          next_of_def previous_of_def deref_def fresh_node_def)
  qed
  from A B C D E F G H show ?thesis by (intro conjI)
qed

theorem append_before_head_witness:
  "next_city (clock_list known_zones) 0 = Inr ''United Kingdom'' \<and>
   previous_city (clock_list known_zones) 0 = Inr ''China'' \<and>
   clock_count (snd (add_clock known_zones ''Scotland'' ''Europe/London'' ''clock_sc.png''
       (clock_list known_zones))) = 4 \<and>
   get_clock_at_index 3 (snd (add_clock known_zones ''Scotland'' ''Europe/London'' ''clock_sc.png''
       (clock_list known_zones))) = Inr (Some 3)"
proof -
  let ?l = "clock_list known_zones"
  have r: "reachable known_zones ?l" by (rule reachable_clock_list)
  have k: "known_zones ''Europe/London''" by (simp add: known_zones_def)
  have z: "known_zones ''America/Bogota'' \<and> known_zones ''Europe/London'' \<and>
      known_zones ''Asia/Shanghai''" by (simp add: known_zones_def)
  have n: "length (nodes ?l) = 3" "clock_count ?l = 3" by (simp_all add: clock_list_known)
  note t = append_before_head [OF r k, where city = "''Scotland''" and img = "''clock_sc.png''"]
  from t have "known_zones ''America/Bogota'' \<and> known_zones ''Europe/London'' \<and>
      known_zones ''Asia/Shanghai'' \<longrightarrow>
        next_city ?l 0 = Inr ''United Kingdom'' \<and> previous_city ?l 0 = Inr ''China''"
    by (elim conjE)
  from this z have w1: "next_city ?l 0 = Inr ''United Kingdom'' \<and> previous_city ?l 0 = Inr ''China''"
    by (rule mp)
  from t have "clock_count (snd (add_clock known_zones ''Scotland'' ''Europe/London''
       ''clock_sc.png'' ?l)) = clock_count ?l + 1"
    by (elim conjE)
  then have w2: "clock_count (snd (add_clock known_zones ''Scotland'' ''Europe/London''
       ''clock_sc.png'' ?l)) = 4"
    by (simp add: n)
  from t have "get_clock_at_index (int (clock_count ?l)) (snd (add_clock known_zones ''Scotland''
       ''Europe/London'' ''clock_sc.png'' ?l)) = Inr (Some (length (nodes ?l)))"
    by (elim conjE)
  then have w3: "get_clock_at_index 3 (snd (add_clock known_zones ''Scotland''
       ''Europe/London'' ''clock_sc.png'' ?l)) = Inr (Some 3)"
    by (simp add: n)
  from w1 w2 w3 show ?thesis by (intro conjI) (simp_all only: )
qed

section \<open>A ring with an offset of many years\<close>







section \<open>The dominant theme\<close>

lemma readable_D:
  "readable clk l \<Longrightarrow> a < length (nodes l) \<Longrightarrow> \<exists>dt. get_current_time clk t (nodes l ! a) = Inr dt"
  by (simp add: readable_def)












section \<open>The meeting search\<close>








lemma hours_of_day: "h \<in> set [0..23] \<Longrightarrow> 0 \<le> h \<and> h \<le> (23::int)"
  by simp



lemma hour_label_examples:
  "hour_label 0 = ''12:00 AM''" "hour_label 9 = ''09:00 AM''" "hour_label 16 = ''04:00 PM''"
  by code_simp+




section \<open>The difference of two clocks\<close>

lemma time_difference_report:
  assumes "reachable tzdb l" "readable clk l"
    "0 \<le> index1" "index1 < int (clock_count l)" "0 \<le> index2" "index2 < int (clock_count l)"
  shows "\<exists>time1 time2.
      get_current_time clk 0 (nodes l ! nat index1) = Inr time1 \<and>
      get_current_time clk 1 (nodes l ! nat index2) = Inr time2 \<and>
      calculate_time_difference clk index1 index2 l =
        Inr (Some \<lparr>clock1 = city_name (nodes l ! nat index1),
                    clock2 = city_name (nodes l ! nat index2),
                    difference_hours = py_round2 (time_diff time1 time2),
                    difference_text = format_time_difference (time_diff time1 time2)\<rparr>)"
proof -
  from assms(1) have ok: "ring_ok l" by (rule reachable_ring_ok)
  then have c: "clock_count l = length (nodes l)" by (simp add: ring_ok_def)
  from assms(3-6) c have i: "nat index1 < length (nodes l)" "nat index2 < length (nodes l)"
    by linarith+
  from assms(3-6) c have g: "get_clock_at_index index1 l = Inr (Some (nat index1))"
    "get_clock_at_index index2 l = Inr (Some (nat index2))"
    by (simp_all add: get_clock_at_index_ok [OF ok])
  from readable_D [OF assms(2) i(1)] obtain time1
    where t1: "get_current_time clk 0 (nodes l ! nat index1) = Inr time1" ..
  from readable_D [OF assms(2) i(2)] obtain time2
    where t2: "get_current_time clk 1 (nodes l ! nat index2) = Inr time2" ..
  from g i t1 t2 have "calculate_time_difference clk index1 index2 l =
        Inr (Some \<lparr>clock1 = city_name (nodes l ! nat index1),
                    clock2 = city_name (nodes l ! nat index2),
                    difference_hours = py_round2 (time_diff time1 time2),
                    difference_text = format_time_difference (time_diff time1 time2)\<rparr>)"
    by (simp add: calculate_time_difference_def deref_def Let_def)
  with t1 t2 show ?thesis by blast
qed

lemma time_diff_whole_hours:
  assumes "minute time1 = minute time2" "\<bar>hour time2 - hour time1\<bar> < 2 ^ 53"
  shows "time_diff time1 time2 = of_int (hour time2 - hour time1)"
proof -
  have "int_truediv (minute time2 - minute time1) 60 = 0"
    using assms(1) by (simp add: int_truediv_def float_round_def)
  moreover have "float_of_int (hour time2 - hour time1) = of_int (hour time2 - hour time1)"
    unfolding float_of_int_def by (rule float_round_int [OF assms(2)])
  ultimately show ?thesis
    using float_round_int [OF assms(2)] by (simp add: time_diff_def float_add_def)
qed

lemma difference_of_five_hours:
  assumes "hour time1 = 9" "hour time2 = 14" "minute time1 = minute time2"
  shows "time_diff time1 time2 = 5" and "time_diff time2 time1 = - 5"
  using time_diff_whole_hours [of time1 time2] time_diff_whole_hours [of time2 time1] assms
  by simp_all

lemma five_hours_text:
  "py_round2 5 = 5" "format_time_difference 5 = ''5 hours ahead''"
  "py_round2 (- 5) = - 5" "format_time_difference (- 5) = ''5 hours behind''"
  "format_time_difference 0 = ''0 hours behind''"
  by code_simp+

lemma set_time_offset_40:
  "set_time_offset 0 40 nd = (Inr (), nd\<lparr>time_offset := 2400, is_modified := True\<rparr>)"
  by (simp add: set_time_offset_def timedelta_hm_def)

lemma offset_ring_value:
  "offset_ring = \<lparr>nodes =
       [(fresh_node ''Colombia'' ''America/Bogota'' ''clock_colombia.png'')
           \<lparr>next_clock := Some 1, previous_clock := Some 2, time_offset := 2400,
            is_modified := True\<rparr>,
        (fresh_node ''United Kingdom'' ''Europe/London'' ''clock_uk.png'')
           \<lparr>next_clock := Some 2, previous_clock := Some 0\<rparr>,
        (fresh_node ''China'' ''Asia/Shanghai'' ''clock_china.png'')
           \<lparr>next_clock := Some 0, previous_clock := Some 1\<rparr>],
     head_clock = Some 0, clock_count = 3\<rparr>"
  by (simp add: offset_ring_def clock_list_known fresh_node_def)

lemma reachable_offset_ring: "reachable known_zones offset_ring"
proof -
  have "get_clock_at_index 0 (clock_list known_zones) = Inr (Some 0)"
    by (simp add: get_clock_at_index_def clock_list_known)
  from reachable.set_offset [OF reachable_clock_list this, of 0 40]
  show ?thesis by (simp add: offset_ring_def set_time_offset_40)
qed

lemma time_diff_value:
  "time_diff \<lparr>ordinal = 739000, hour = 9, minute = 40, second = 0, microsecond = 0\<rparr>
             \<lparr>ordinal = 739000, hour = 14, minute = 0, second = 0, microsecond = 0\<rparr>
     = 4878899596318037 / 1125899906842624"
  by code_simp

lemma round_value: "py_round2 (4878899596318037 / 1125899906842624) = float_round (433 / 100)"
  by code_simp

lemma text_value:
  "format_time_difference (4878899596318037 / 1125899906842624) = ''4h 19m ahead''"
  by code_simp

lemma spec_value:
  "spec_split (spec_diff_hours
       \<lparr>ordinal = 739000, hour = 9, minute = 40, second = 0, microsecond = 0\<rparr>
       \<lparr>ordinal = 739000, hour = 14, minute = 0, second = 0, microsecond = 0\<rparr>) = (4, 20)"
  by code_simp

lemma current_times:
  "get_current_time morning_clock 0 (nodes offset_ring ! 0) =
     Inr \<lparr>ordinal = 739000, hour = 9, minute = 40, second = 0, microsecond = 0\<rparr>"
  "get_current_time morning_clock (Suc 0) (nodes offset_ring ! Suc 0) =
     Inr \<lparr>ordinal = 739000, hour = 14, minute = 0, second = 0, microsecond = 0\<rparr>"
  by (simp_all add: offset_ring_value fresh_node_def get_current_time_def datetime_add_def
      morning_clock_def)

text \<open>
  Claim C4. For valid indices \<^verbatim>\<open>calculate_time_difference\<close> returns a report
  (\<open>time_difference_report\<close>); for the local hours 9 and 14 with equal minutes it holds
  5.0 and \<^verbatim>\<open>'5 hours ahead'\<close>, with the arguments exchanged -5.0 and
  \<^verbatim>\<open>'5 hours behind'\<close>, and a difference of zero reads \<^verbatim>\<open>'behind'\<close>
  (\<open>difference_of_five_hours\<close>, \<open>five_hours_text\<close>). The text does not always hold
  the whole hours and the rounded-down minutes of the difference. In the module's ring,
  with 40 minutes of offset on the first clock and the system clock at 09:00 in Bogota
  and 14:00 in London, the two times are 09:40 and 14:00: the difference is 4 hours and
  20 minutes, and the code reports 4.33 and \<^verbatim>\<open>'4h 19m ahead'\<close>. The float nearest to
  \<open>5 - 40/60\<close> lies below \<open>13/3\<close>, and \<^verbatim>\<open>int\<close> truncates the minutes computed from it.
\<close>

theorem time_difference_failing_input:
  "calculate_time_difference morning_clock 0 1 offset_ring =
     Inr (Some \<lparr>clock1 = ''Colombia'', clock2 = ''United Kingdom'',
                 difference_hours = float_round (433 / 100),
                 difference_text = ''4h 19m ahead''\<rparr>) \<and>
   spec_split (spec_diff_hours
       \<lparr>ordinal = 739000, hour = 9, minute = 40, second = 0, microsecond = 0\<rparr>
       \<lparr>ordinal = 739000, hour = 14, minute = 0, second = 0, microsecond = 0\<rparr>) = (4, 20)"
proof -
  have g: "get_clock_at_index 0 offset_ring = Inr (Some 0)"
    "get_clock_at_index 1 offset_ring = Inr (Some (Suc 0))"
    by (simp_all add: get_clock_at_index_def offset_ring_value next_of_def deref_def)
  have d: "deref (nodes offset_ring) (Some 0) = Inr (nodes offset_ring ! 0)"
    "deref (nodes offset_ring) (Some (Suc 0)) = Inr (nodes offset_ring ! Suc 0)"
    by (simp_all add: deref_def offset_ring_value)
  have c: "city_name (nodes offset_ring ! 0) = ''Colombia''"
    "city_name (nodes offset_ring ! Suc 0) = ''United Kingdom''"
    by (simp_all add: offset_ring_value fresh_node_def)
  have "calculate_time_difference morning_clock 0 1 offset_ring =
     Inr (Some \<lparr>clock1 = ''Colombia'', clock2 = ''United Kingdom'',
                 difference_hours = float_round (433 / 100),
                 difference_text = ''4h 19m ahead''\<rparr>)"
    by (simp add: calculate_time_difference_def g d c current_times time_diff_value round_value
        text_value)
  with spec_value show ?thesis by (intro conjI)
qed

end
